theory Spec2Isabelle
  imports Complex_Main "HOL-Library.Word"
begin

section \<open>JavaScript numbers and typed arrays\<close>

text \<open>
  A JavaScript number is a finite value, one of the two infinities, or NaN. A finite value
  is the real number that the binary64 number denotes; the sign of zero is not modelled.
  The arithmetic of the resampler rounds every result to binary64 (\<open>fl64\<close> below), and
  its store into a \<open>Float32Array\<close> rounds to binary32, because the boundaries and the
  length of its output depend on the rounding. Elsewhere the operations are written on the
  exact values: a sample of a \<open>Float32Array\<close> times \<open>0x8000\<close> or \<open>0x7fff\<close> is exact
  in binary64, the header fields are integers, and the recorder's difference of two clock
  readings is taken exactly.
\<close>

datatype jsnum = Fin real | PInf | NInf | NaN

text \<open>
  A \<open>Float32Array\<close> is a list of numbers of fixed length. Reading out of range gives
  \<open>undefined\<close> (\<open>None\<close>); writing out of range is ignored; storing \<open>undefined\<close>
  stores NaN.
\<close>

type_synonym Float32Array = "jsnum list"

definition f32_load :: "Float32Array \<Rightarrow> nat \<Rightarrow> jsnum option" where
  "f32_load a i = (if i < length a then Some (a ! i) else None)"

definition ToNumber :: "jsnum option \<Rightarrow> jsnum" where
  "ToNumber v = (case v of None \<Rightarrow> NaN | Some x \<Rightarrow> x)"

definition f32_store :: "Float32Array \<Rightarrow> nat \<Rightarrow> jsnum option \<Rightarrow> Float32Array" where
  "f32_store a i v = (if i < length a then a[i := ToNumber v] else a)"

definition new_Float32Array :: "nat \<Rightarrow> Float32Array" where
  "new_Float32Array n = replicate n (Fin 0)"

text \<open>An index that may be negative: a property that does not exist reads as \<open>undefined\<close>.\<close>

definition f32_load_int :: "Float32Array \<Rightarrow> int \<Rightarrow> jsnum option" where
  "f32_load_int a i = (if 0 \<le> i then f32_load a (nat i) else None)"

text \<open>The comparison \<open><\<close>: false as soon as one side is NaN.\<close>

fun jlt :: "jsnum \<Rightarrow> jsnum \<Rightarrow> bool" where
  "jlt NaN y = False"
| "jlt x NaN = False"
| "jlt (Fin a) (Fin b) = (a < b)"
| "jlt (Fin a) PInf = True"
| "jlt (Fin a) NInf = False"
| "jlt PInf y = False"
| "jlt NInf NInf = False"
| "jlt NInf y = True"


definition Math_max :: "jsnum \<Rightarrow> jsnum \<Rightarrow> jsnum" where
  "Math_max x y = (if x = NaN \<or> y = NaN then NaN else if jlt x y then y else x)"

definition Math_min :: "jsnum \<Rightarrow> jsnum \<Rightarrow> jsnum" where
  "Math_min x y = (if x = NaN \<or> y = NaN then NaN else if jlt y x then y else x)"

text \<open>\<open>Math.max(...xs)\<close>: minus infinity on no argument.\<close>

definition Math_max_list :: "jsnum list \<Rightarrow> jsnum" where
  "Math_max_list xs = foldl Math_max NInf xs"

text \<open>\<open>Math.round\<close> rounds a half upwards.\<close>

definition Math_round :: "real \<Rightarrow> int" where
  "Math_round x = \<lfloor>x + 1 / 2\<rfloor>"

text \<open>
  Rounding to a binary format with \<open>p\<close> significant bits and least exponent \<open>emin\<close>:
  \<open>exponent2 x\<close> is the exponent of a positive \<open>x\<close> (the \<open>e\<close> with
  \<open>2^e \<le> x < 2^(e+1)\<close>), the unit in the last place is \<open>2^(e - p + 1)\<close>, with the
  exponent of the subnormal numbers below \<open>2^emin\<close>, and the quotient by it is rounded
  to the nearest integer, a tie to the even one. A rounded value of \<open>2^1024\<close> or more
  (binary32: \<open>2^128\<close>) is an infinity.
\<close>

function exponent2 :: "real \<Rightarrow> int" where
  "exponent2 x =
     (if x \<le> 0 then 0
      else if 2 \<le> x then exponent2 (x / 2) + 1
      else if x < 1 then exponent2 (x * 2) - 1
      else 0)"
  by pat_completeness auto
termination
proof (relation "measure (\<lambda>x. nat \<lfloor>x\<rfloor> + 2 * nat \<lceil>1 / x\<rceil>)", goal_cases)
  case 1
  show ?case by simp
next
  case (2 x)
  then have x: "2 \<le> x" by simp
  then have "\<lceil>1 / x\<rceil> = 1" and "\<lceil>1 / (x / 2)\<rceil> = 1"
    by (simp_all add: ceiling_eq_iff field_simps)
  moreover have "\<lfloor>x / 2\<rfloor> < \<lfloor>x\<rfloor>" and "0 \<le> \<lfloor>x / 2\<rfloor>"
    using x by (simp_all add: floor_less_iff le_floor_iff) linarith
  ultimately show ?case using x by simp
next
  case (3 x)
  then have x: "0 < x" "x < 1" by simp_all
  show ?case
  proof (cases "x < 1 / 2")
    case True
    then have "\<lfloor>x * 2\<rfloor> = 0" and "\<lfloor>x\<rfloor> = 0" using x by (simp_all add: floor_eq_iff)
    moreover have "\<lceil>1 / (x * 2)\<rceil> < \<lceil>1 / x\<rceil>"
    proof -
      have "2 < 1 / x" using True x by (simp add: field_simps)
      then have "1 / (x * 2) \<le> 1 / x - 1" by (simp add: field_simps)
      then have "\<lceil>1 / (x * 2)\<rceil> \<le> \<lceil>1 / x - 1\<rceil>" by (rule ceiling_mono)
      then show ?thesis by simp
    qed
    moreover have "0 < \<lceil>1 / (x * 2)\<rceil>" using x by simp
    ultimately show ?thesis by simp
  next
    case False
    then have "\<lfloor>x * 2\<rfloor> = 1" and "\<lfloor>x\<rfloor> = 0" using x by (simp_all add: floor_eq_iff)
    moreover have "\<lceil>1 / (x * 2)\<rceil> = 1" and "\<lceil>1 / x\<rceil> = 2"
      using False x by (simp_all add: ceiling_eq_iff field_simps)
    ultimately show ?thesis by simp
  qed
qed

declare exponent2.simps [simp del]

definition round_ties_even :: "real \<Rightarrow> int" where
  "round_ties_even q =
     (let n = \<lfloor>q\<rfloor>; d = q - of_int n
      in if d < 1 / 2 then n else if 1 / 2 < d then n + 1 else if even n then n else n + 1)"

definition round_binary :: "nat \<Rightarrow> int \<Rightarrow> real \<Rightarrow> real" where
  "round_binary p emin x =
     (if x = 0 then 0
      else (let e = max (exponent2 \<bar>x\<bar>) emin; u = 2 powi (e - int p + 1)
            in of_int (round_ties_even (x / u)) * u))"

definition fl64 :: "real \<Rightarrow> jsnum" where
  "fl64 x =
     (let y = round_binary 53 (- 1022) x
      in if 1024 \<le> exponent2 \<bar>y\<bar> then (if 0 < y then PInf else NInf) else Fin y)"

definition fl32 :: "real \<Rightarrow> jsnum" where
  "fl32 x =
     (let y = round_binary 24 (- 126) x
      in if 128 \<le> exponent2 \<bar>y\<bar> then (if 0 < y then PInf else NInf) else Fin y)"

text \<open>
  The conversion of a number stored into a \<open>Float32Array\<close>. (The elements that
  \<open>interleave\<close> and \<open>mergeBuffers\<close> store are read from a \<open>Float32Array\<close> and need
  no rounding.)
\<close>

definition fround :: "jsnum \<Rightarrow> jsnum" where
  "fround v = (case v of Fin x \<Rightarrow> fl32 x | _ \<Rightarrow> v)"

text \<open>\<open>Math.round\<close> on a number: the infinities and NaN are returned as they are.\<close>

definition Math_round_num :: "jsnum \<Rightarrow> jsnum" where
  "Math_round_num v = (case v of Fin x \<Rightarrow> Fin (of_int (Math_round x)) | _ \<Rightarrow> v)"

text \<open>The sum of two numbers, rounded to binary64.\<close>

fun jadd :: "jsnum \<Rightarrow> jsnum \<Rightarrow> jsnum" where
  "jadd NaN y = NaN"
| "jadd x NaN = NaN"
| "jadd (Fin a) (Fin b) = fl64 (a + b)"
| "jadd PInf NInf = NaN"
| "jadd NInf PInf = NaN"
| "jadd PInf y = PInf"
| "jadd NInf y = NInf"
| "jadd (Fin a) y = y"

text \<open>
  The product of two numbers, written exactly: the program multiplies a clamped sample by
  \<open>0x8000\<close> or \<open>0x7fff\<close>, which binary64 does without rounding.
\<close>

fun jmul :: "jsnum \<Rightarrow> jsnum \<Rightarrow> jsnum" where
  "jmul NaN y = NaN"
| "jmul x NaN = NaN"
| "jmul (Fin a) (Fin b) = Fin (a * b)"
| "jmul (Fin a) PInf = (if a = 0 then NaN else if 0 < a then PInf else NInf)"
| "jmul (Fin a) NInf = (if a = 0 then NaN else if 0 < a then NInf else PInf)"
| "jmul PInf (Fin b) = (if b = 0 then NaN else if 0 < b then PInf else NInf)"
| "jmul NInf (Fin b) = (if b = 0 then NaN else if 0 < b then NInf else PInf)"
| "jmul PInf PInf = PInf"
| "jmul PInf NInf = NInf"
| "jmul NInf PInf = NInf"
| "jmul NInf NInf = PInf"

text \<open>
  \<open>accum / count\<close> for a count of loop iterations, rounded to binary64: a zero count
  divides by zero, which in JavaScript is NaN for \<open>0 / 0\<close> and an infinity otherwise
  (HOL's \<open>x / 0 = 0\<close> is not what the program computes).
\<close>

fun jdiv_count :: "jsnum \<Rightarrow> nat \<Rightarrow> jsnum" where
  "jdiv_count NaN n = NaN"
| "jdiv_count PInf n = PInf"
| "jdiv_count NInf n = NInf"
| "jdiv_count (Fin a) n =
     (if n = 0 then (if a = 0 then NaN else if 0 < a then PInf else NInf)
      else fl64 (a / real n))"

text \<open>
  The integer conversion in front of \<open>ToUint8\<close>, \<open>ToUint16\<close>, \<open>ToInt16\<close> and
  \<open>ToUint32\<close>: NaN and the infinities become 0, a finite number is truncated towards zero.
  The reduction modulo \<open>2 ^ w\<close> is then \<open>word_of_int\<close>.
\<close>

fun ToIntegral :: "jsnum \<Rightarrow> int" where
  "ToIntegral (Fin x) = (if x < 0 then \<lceil>x\<rceil> else \<lfloor>x\<rfloor>)"
| "ToIntegral PInf = 0"
| "ToIntegral NInf = 0"
| "ToIntegral NaN = 0"

section \<open>Errors\<close>

text \<open>
  The exceptions of the worker: the \<open>Error\<close> that \<open>downsampleBuffer\<close> throws, with its
  message, and the RangeError and TypeError of the runtime.
\<close>

datatype error = Error string | RangeError | TypeError

definition bind_err :: "error + 'a \<Rightarrow> ('a \<Rightarrow> error + 'b) \<Rightarrow> error + 'b" where
  "bind_err m f = (case m of Inl e \<Rightarrow> Inl e | Inr x \<Rightarrow> f x)"

section \<open>The worker: interleave\<close>

text \<open>
  \<^verbatim>\<open>
  while (index < length) {
    result[index++] = inputL[inputIndex]
    result[index++] = inputR[inputIndex]
    inputIndex++
  }
  \<close>
\<close>

function interleave_loop ::
  "Float32Array \<Rightarrow> Float32Array \<Rightarrow> nat \<Rightarrow> nat \<Rightarrow> nat \<Rightarrow> Float32Array \<Rightarrow> Float32Array" where
  "interleave_loop inputL inputR len index inputIndex result =
     (if index < len then
        interleave_loop inputL inputR len (index + 2) (inputIndex + 1)
          (f32_store (f32_store result index (f32_load inputL inputIndex))
             (index + 1) (f32_load inputR inputIndex))
      else result)"
  by pat_completeness auto
termination
  by (relation "measure (\<lambda>(inputL, inputR, len, index, inputIndex, result). len - index)") auto

declare interleave_loop.simps [simp del]

definition interleave :: "Float32Array \<Rightarrow> Float32Array \<Rightarrow> Float32Array" where
  "interleave inputL inputR =
     (let len = length inputL + length inputR
      in interleave_loop inputL inputR len 0 0 (new_Float32Array len))"

section \<open>The worker: mergeBuffers\<close>

text \<open>
  A recorded chunk is what \<open>record\<close> pushed: a \<open>Float32Array\<close>, or \<open>undefined\<close> when the
  message had no array for that channel. \<open>result.set(chunk, offset)\<close> copies the chunk
  into the result; it throws a RangeError when the chunk does not fit and a TypeError on
  \<open>undefined\<close>.
\<close>

definition f32_set :: "Float32Array \<Rightarrow> Float32Array \<Rightarrow> nat \<Rightarrow> error + Float32Array" where
  "f32_set result chunk offset =
     (if length result < offset + length chunk then Inl RangeError
      else Inr (take offset result @ chunk @ drop (offset + length chunk) result))"

fun mergeBuffers_loop ::
  "Float32Array option list \<Rightarrow> nat \<Rightarrow> Float32Array \<Rightarrow> error + Float32Array" where
  "mergeBuffers_loop [] offset result = Inr result"
| "mergeBuffers_loop (None # chunks) offset result = Inl TypeError"
| "mergeBuffers_loop (Some chunk # chunks) offset result =
     bind_err (f32_set result chunk offset)
       (\<lambda>result'. mergeBuffers_loop chunks (offset + length chunk) result')"

definition mergeBuffers :: "Float32Array option list \<Rightarrow> nat \<Rightarrow> error + Float32Array" where
  "mergeBuffers recBuffers recLength = mergeBuffers_loop recBuffers 0 (new_Float32Array recLength)"

section \<open>The worker: downsampleBuffer\<close>

text \<open>
  The inner loop
  \<^verbatim>\<open>for (let i = offsetBuffer; i < nextOffsetBuffer && i < buffer.length; i++) {
    accum += buffer[i]; count++ }\<close>
  from a finite start. The test \<open>i < buffer.length\<close> keeps \<open>i\<close> below the length of a
  typed array, which is less than \<open>2^53\<close>, so \<open>i++\<close> is exact.
\<close>

function accum_loop :: "Float32Array \<Rightarrow> jsnum \<Rightarrow> int \<Rightarrow> jsnum \<Rightarrow> nat \<Rightarrow> jsnum \<times> nat" where
  "accum_loop buffer nextOffsetBuffer i accum count =
     (if jlt (Fin (of_int i)) nextOffsetBuffer \<and> i < int (length buffer) then
        accum_loop buffer nextOffsetBuffer (i + 1)
          (jadd accum (ToNumber (f32_load_int buffer i))) (count + 1)
      else (accum, count))"
  by pat_completeness auto
termination
  by (relation "measure (\<lambda>(buffer, nextOffsetBuffer, i, accum, count).
        nat (int (length buffer) - i))") auto

declare accum_loop.simps [simp del]

text \<open>
  The loop with its initialisation \<open>accum = 0, count = 0, i = offsetBuffer\<close>. The start
  is 0 or a result of \<open>Math.round\<close>: an integer, \<open>Infinity\<close> (the test then fails at
  once), or \<open>-Infinity\<close>. From \<open>-Infinity\<close> the source's loop would not end; that start
  needs a negative ratio, with which \<open>downsampleBuffer\<close> allocates no output sample and
  does not enter the outer loop (lemmas \<open>downsampleBuffer_ratio_pos\<close> and
  \<open>boundary_not_NInf\<close>).
\<close>

definition accum_from :: "Float32Array \<Rightarrow> jsnum \<Rightarrow> jsnum \<Rightarrow> jsnum \<times> nat" where
  "accum_from buffer nextOffsetBuffer offsetBuffer =
     (case offsetBuffer of
        Fin a \<Rightarrow> accum_loop buffer nextOffsetBuffer \<lfloor>a\<rfloor> (Fin 0) 0
      | _ \<Rightarrow> (Fin 0, 0))"

text \<open>
  The outer loop, one output sample per round:
  \<^verbatim>\<open>while (offsetResult < result.length) {
    let nextOffsetBuffer = Math.round((offsetResult + 1) * sampleRateRatio)
    ...
    result[offsetResult] = accum / count
    offsetResult++
    offsetBuffer = nextOffsetBuffer }\<close>
\<close>

function downsample_loop ::
  "Float32Array \<Rightarrow> real \<Rightarrow> nat \<Rightarrow> jsnum \<Rightarrow> Float32Array \<Rightarrow> Float32Array" where
  "downsample_loop buffer sampleRateRatio offsetResult offsetBuffer result =
     (if offsetResult < length result then
        (let nextOffsetBuffer =
               Math_round_num (fl64 (real (offsetResult + 1) * sampleRateRatio));
             ac = accum_from buffer nextOffsetBuffer offsetBuffer
         in downsample_loop buffer sampleRateRatio (offsetResult + 1) nextOffsetBuffer
              (f32_store result offsetResult (Some (fround (jdiv_count (fst ac) (snd ac))))))
      else result)"
  by pat_completeness auto
termination
  by (relation "measure (\<lambda>(buffer, sampleRateRatio, offsetResult, offsetBuffer, result).
        length result - offsetResult)") (auto simp: f32_store_def)

declare downsample_loop.simps [simp del]

text \<open>
  \<open>sampleRate\<close> is the worker's global. The rates are finite numbers. The quotients
  \<open>sampleRate / rate\<close> and \<open>buffer.length / sampleRateRatio\<close> are rounded to binary64.
  The divisions by zero and the infinite quotients are written out: with \<open>rate = 0\<close> or
  an infinite ratio the new length is \<open>round(length / Infinity) = 0\<close>; a ratio of 0
  makes the new length NaN on an empty buffer (an array of length 0) and infinite
  otherwise; an infinite or negative new length is a RangeError of the array constructor.
  The limit on the size of an array is not modelled.
\<close>

definition downsampleBuffer :: "Float32Array \<Rightarrow> real \<Rightarrow> real \<Rightarrow> error + Float32Array" where
  "downsampleBuffer buffer rate sampleRate =
     (if rate = sampleRate then Inr buffer
      else if rate > sampleRate then
        Inl (Error ''downsampling rate show be smaller than original sample rate'')
      else if rate = 0 then Inr (new_Float32Array 0)
      else
        (case fl64 (sampleRate / rate) of
           Fin sampleRateRatio \<Rightarrow>
             if sampleRateRatio = 0 then
               (if length buffer = 0 then Inr (new_Float32Array 0) else Inl RangeError)
             else
               (case fl64 (real (length buffer) / sampleRateRatio) of
                  Fin q \<Rightarrow>
                    (let newLength = Math_round q
                     in if newLength < 0 then Inl RangeError
                        else Inr (downsample_loop buffer sampleRateRatio 0 (Fin 0)
                                    (new_Float32Array (nat newLength))))
                | NaN \<Rightarrow> Inr (new_Float32Array 0)
                | _ \<Rightarrow> Inl RangeError)
         | _ \<Rightarrow> Inr (new_Float32Array 0)))"

section \<open>The worker: encodeWAV\<close>

text \<open>
  A \<open>DataView\<close> on a fresh \<open>ArrayBuffer\<close> is a list of bytes, all 0 at first. Every
  setter throws a RangeError when it would write beyond the end. All writes of the
  program are little-endian.
\<close>

type_synonym DataView = "8 word list"

definition new_DataView :: "nat \<Rightarrow> DataView" where
  "new_DataView n = replicate n 0"

definition setBytes :: "DataView \<Rightarrow> nat \<Rightarrow> 8 word list \<Rightarrow> error + DataView" where
  "setBytes view offset bs =
     (if length view < offset + length bs then Inl RangeError
      else Inr (take offset view @ bs @ drop (offset + length bs) view))"

definition le16 :: "16 word \<Rightarrow> 8 word list" where
  "le16 w = [ucast w, ucast (drop_bit 8 w)]"

definition le32 :: "32 word \<Rightarrow> 8 word list" where
  "le32 w = [ucast w, ucast (drop_bit 8 w), ucast (drop_bit 16 w), ucast (drop_bit 24 w)]"

definition setUint8 :: "DataView \<Rightarrow> nat \<Rightarrow> jsnum \<Rightarrow> error + DataView" where
  "setUint8 view offset v = setBytes view offset [word_of_int (ToIntegral v)]"

definition setUint16 :: "DataView \<Rightarrow> nat \<Rightarrow> jsnum \<Rightarrow> error + DataView" where
  "setUint16 view offset v = setBytes view offset (le16 (word_of_int (ToIntegral v)))"

definition setInt16 :: "DataView \<Rightarrow> nat \<Rightarrow> jsnum \<Rightarrow> error + DataView" where
  "setInt16 view offset v = setBytes view offset (le16 (word_of_int (ToIntegral v)))"

definition setUint32 :: "DataView \<Rightarrow> nat \<Rightarrow> jsnum \<Rightarrow> error + DataView" where
  "setUint32 view offset v = setBytes view offset (le32 (word_of_int (ToIntegral v)))"

definition charCode :: "char \<Rightarrow> jsnum" where
  "charCode c = Fin (real (of_char c :: nat))"

fun writeString :: "DataView \<Rightarrow> nat \<Rightarrow> string \<Rightarrow> error + DataView" where
  "writeString view offset [] = Inr view"
| "writeString view offset (c # str) =
     bind_err (setUint8 view offset (charCode c))
       (\<lambda>view'. writeString view' (offset + 1) str)"

text \<open>
  \<^verbatim>\<open>for (let i = 0; i < input.length; i++, offset += 2) {
    let s = Math.max(-1, Math.min(1, input[i]))
    output.setInt16(offset, s < 0 ? s * 0x8000 : s * 0x7fff, true) }\<close>
\<close>

definition pcm_sample :: "jsnum \<Rightarrow> jsnum" where
  "pcm_sample x =
     (let s = Math_max (Fin (- 1)) (Math_min (Fin 1) x)
      in if jlt s (Fin 0) then jmul s (Fin 32768) else jmul s (Fin 32767))"

fun floatTo16BitPCM :: "DataView \<Rightarrow> nat \<Rightarrow> Float32Array \<Rightarrow> error + DataView" where
  "floatTo16BitPCM output offset [] = Inr output"
| "floatTo16BitPCM output offset (x # input) =
     bind_err (setInt16 output offset (pcm_sample x))
       (\<lambda>output'. floatTo16BitPCM output' (offset + 2) input)"

text \<open>\<open>numChannels\<close> is the worker's global.\<close>

definition encodeWAV :: "Float32Array \<Rightarrow> real \<Rightarrow> nat \<Rightarrow> error + DataView" where
  "encodeWAV samples rate numChannels =
     (let view = new_DataView (44 + length samples * 2) in
      bind_err (writeString view 0 ''RIFF'') (\<lambda>view.
      bind_err (setUint32 view 4 (Fin (real (36 + length samples * 2)))) (\<lambda>view.
      bind_err (writeString view 8 ''WAVE'') (\<lambda>view.
      bind_err (writeString view 12 ''fmt '') (\<lambda>view.
      bind_err (setUint32 view 16 (Fin 16)) (\<lambda>view.
      bind_err (setUint16 view 20 (Fin 1)) (\<lambda>view.
      bind_err (setUint16 view 22 (Fin (real numChannels))) (\<lambda>view.
      bind_err (setUint32 view 24 (Fin rate)) (\<lambda>view.
      bind_err (setUint32 view 28 (Fin (rate * real numChannels * 2))) (\<lambda>view.
      bind_err (setUint16 view 32 (Fin (real (numChannels * 2)))) (\<lambda>view.
      bind_err (setUint16 view 34 (Fin 16)) (\<lambda>view.
      bind_err (writeString view 36 ''data'') (\<lambda>view.
      bind_err (setUint32 view 40 (Fin (real (length samples * 2)))) (\<lambda>view.
      floatTo16BitPCM view 44 samples))))))))))))))"

text \<open>Reading the view back, as a parser of the file does.\<close>

definition getUint16 :: "DataView \<Rightarrow> nat \<Rightarrow> nat" where
  "getUint16 view offset = unat (view ! offset) + 256 * unat (view ! (offset + 1))"

definition getInt16 :: "DataView \<Rightarrow> nat \<Rightarrow> int" where
  "getInt16 view offset =
     (let u = int (getUint16 view offset) in if u < 32768 then u else u - 65536)"

definition getUint32 :: "DataView \<Rightarrow> nat \<Rightarrow> nat" where
  "getUint32 view offset =
     unat (view ! offset) + 256 * unat (view ! (offset + 1))
       + 65536 * unat (view ! (offset + 2)) + 16777216 * unat (view ! (offset + 3))"

definition getString :: "DataView \<Rightarrow> nat \<Rightarrow> nat \<Rightarrow> string" where
  "getString view offset n = map (\<lambda>b. char_of (unat b)) (take n (drop offset view))"

section \<open>The worker: state and messages\<close>

text \<open>
  The globals of the worker, after they hold numbers (\<open>sampleRate\<close> and \<open>numChannels\<close>
  are declared without a value). \<open>recBuffers\<close> has one list of chunks per channel.
\<close>

record IConfig =
  cfg_sampleRate :: real
  cfg_numChannels :: nat

record worker =
  recLength :: nat
  recBuffers :: "Float32Array option list list"
  sampleRate :: real
  numChannels :: nat

text \<open>
  The messages to the worker (\<open>ExportWAV type rate\<close>, where the rate may be absent) and
  from it (\<open>Blob type bytes\<close> is the reply to \<open>exportWAV\<close>).
\<close>

datatype command =
  Init IConfig
| Record "Float32Array list"
| ExportWAV string "real option"
| GetBuffer
| Clear

datatype reply =
  Blob string DataView
| Buffers "Float32Array list"

definition nth_opt :: "'a list \<Rightarrow> nat \<Rightarrow> 'a option" where
  "nth_opt xs i = (if i < length xs then Some (xs ! i) else None)"

text \<open>
  \<open>xs[i] = v\<close> on a plain array: the array grows when \<open>i\<close> is its length. The loops of
  the program assign the indices in increasing order from 0, so no hole arises.
\<close>

definition array_put :: "'a list \<Rightarrow> nat \<Rightarrow> 'a \<Rightarrow> 'a list" where
  "array_put xs i v = (if i < length xs then xs[i := v] else xs @ [v])"

definition initBuffers :: "worker \<Rightarrow> worker" where
  "initBuffers w =
     w\<lparr>recBuffers := fold (\<lambda>channel bufs. array_put bufs channel []) [0..<numChannels w]
                       (recBuffers w)\<rparr>"

definition init :: "IConfig \<Rightarrow> worker \<Rightarrow> worker" where
  "init config w =
     initBuffers (w\<lparr>sampleRate := cfg_sampleRate config, numChannels := cfg_numChannels config\<rparr>)"

definition clear :: "worker \<Rightarrow> worker" where
  "clear w = initBuffers (w\<lparr>recLength := 0, recBuffers := []\<rparr>)"

text \<open>
  \<open>record\<close>: \<open>recBuffers[channel].push(inputBuffer[channel])\<close> for every channel, a
  TypeError where \<open>recBuffers[channel]\<close> does not exist; then
  \<open>recLength += inputBuffer[0].length\<close>, a TypeError on an empty \<open>inputBuffer\<close>. The
  pushes made before an exception stay.
\<close>

fun record_loop ::
  "Float32Array list \<Rightarrow> nat list \<Rightarrow> Float32Array option list list
     \<Rightarrow> Float32Array option list list \<times> error option" where
  "record_loop inputBuffer [] bufs = (bufs, None)"
| "record_loop inputBuffer (channel # channels) bufs =
     (if channel < length bufs then
        record_loop inputBuffer channels
          (bufs[channel := bufs ! channel @ [nth_opt inputBuffer channel]])
      else (bufs, Some TypeError))"

definition record_chunks :: "Float32Array list \<Rightarrow> worker \<Rightarrow> worker \<times> (error + reply list)" where
  "record_chunks inputBuffer w =
     (case record_loop inputBuffer [0..<numChannels w] (recBuffers w) of
        (bufs, Some e) \<Rightarrow> (w\<lparr>recBuffers := bufs\<rparr>, Inl e)
      | (bufs, None) \<Rightarrow>
          (case inputBuffer of
             [] \<Rightarrow> (w\<lparr>recBuffers := bufs\<rparr>, Inl TypeError)
           | b0 # _ \<Rightarrow> (w\<lparr>recBuffers := bufs, recLength := recLength w + length b0\<rparr>, Inr [])))"

text \<open>The loop \<open>buffers.push(mergeBuffers(recBuffers[channel], recLength))\<close>.\<close>

fun merge_channels ::
  "Float32Array option list list \<Rightarrow> nat \<Rightarrow> nat list \<Rightarrow> error + Float32Array list" where
  "merge_channels bufs len [] = Inr []"
| "merge_channels bufs len (channel # channels) =
     (case nth_opt bufs channel of
        None \<Rightarrow> Inl TypeError
      | Some chunks \<Rightarrow>
          bind_err (mergeBuffers chunks len)
            (\<lambda>b. bind_err (merge_channels bufs len channels) (\<lambda>bs. Inr (b # bs))))"

text \<open>
  \<open>exportWAV\<close> reads the globals and writes none of them. With no channel,
  \<open>interleaved\<close> is \<open>undefined\<close>: \<open>downsampleBuffer\<close> then throws its own error when the
  rate is too high, and otherwise the first \<open>.length\<close> (in \<open>downsampleBuffer\<close> or in
  \<open>encodeWAV\<close>) is a TypeError.
\<close>

definition exportWAV :: "string \<Rightarrow> real option \<Rightarrow> worker \<Rightarrow> error + reply list" where
  "exportWAV type payload_rate w =
     (let rate = (case payload_rate of None \<Rightarrow> sampleRate w | Some r \<Rightarrow> r) in
      bind_err (merge_channels (recBuffers w) (recLength w) [0..<numChannels w]) (\<lambda>buffers.
      bind_err
        (if numChannels w = 2 then
           (case (nth_opt buffers 0, nth_opt buffers 1) of
              (Some l, Some r) \<Rightarrow> Inr (Some (interleave l r))
            | _ \<Rightarrow> Inl TypeError)
         else Inr (nth_opt buffers 0)) (\<lambda>interleaved.
      case interleaved of
        None \<Rightarrow>
          (if rate \<noteq> sampleRate w \<and> rate > sampleRate w then
             Inl (Error ''downsampling rate show be smaller than original sample rate'')
           else Inl TypeError)
      | Some buffer \<Rightarrow>
          bind_err (downsampleBuffer buffer rate (sampleRate w)) (\<lambda>downsampledBuffer.
          bind_err (encodeWAV downsampledBuffer rate (numChannels w)) (\<lambda>dataview.
          Inr [Blob type dataview])))))"

definition getBuffer :: "worker \<Rightarrow> error + reply list" where
  "getBuffer w =
     bind_err (merge_channels (recBuffers w) (recLength w) [0..<numChannels w])
       (\<lambda>buffers. Inr [Buffers buffers])"

text \<open>
  The message handler: the new globals, and the messages posted back or the exception
  that ended the handler.
\<close>

fun onmessage :: "worker \<Rightarrow> command \<Rightarrow> worker \<times> (error + reply list)" where
  "onmessage w (Init payload) = (init payload w, Inr [])"
| "onmessage w (Record buffer) = record_chunks buffer w"
| "onmessage w (ExportWAV type rate) = (w, exportWAV type rate w)"
| "onmessage w GetBuffer = (w, getBuffer w)"
| "onmessage w Clear = (clear w, Inr [])"

section \<open>The recorder\<close>

text \<open>
  The options as given (any field may be absent) and as kept. \<open>a || b\<close> is \<open>b\<close> when
  \<open>a\<close> is \<open>undefined\<close>, \<open>false\<close> or 0, and \<open>a\<close> otherwise.
\<close>

record IOptionsMaybe =
  maybe_mono :: "bool option"
  maybe_quietThresholdTime :: "real option"
  maybe_volumeThreshold :: "real option"
  maybe_sampleRate :: "real option"

record IOptions =
  mono :: bool
  quietThresholdTime :: real
  volumeThreshold :: real
  opt_sampleRate :: "real option"

definition or_bool :: "bool option \<Rightarrow> bool \<Rightarrow> bool" where
  "or_bool a b = (case a of None \<Rightarrow> b | Some v \<Rightarrow> if v then v else b)"

definition or_num :: "real option \<Rightarrow> real \<Rightarrow> real" where
  "or_num a b = (case a of None \<Rightarrow> b | Some v \<Rightarrow> if v = 0 then b else v)"

text \<open>
  The fields of the class that the methods below read or write, the messages posted to
  the worker and the names of the events dispatched, both in order. The audio graph is
  the browser's; of it the recorder keeps whether the analyser node exists.
\<close>

record Recorder =
  recording :: bool
  ready :: bool
  bufferLen :: nat
  options :: IOptions
  quietTime :: real
  maxVolume :: jsnum
  analyserData :: Float32Array
  analyserNode :: bool
  posted :: "command list"
  dispatched :: "string list"
  terminated :: bool

text \<open>What the browser supplies when a method runs.\<close>

record AudioContext =
  currentTime :: real
  ctx_sampleRate :: real
  audioTracks :: nat
  frequencyBinCount :: nat

text \<open>
  An \<open>audioprocess\<close> event: the two input channels, and the spectrum that
  \<open>getFloatFrequencyData\<close> copies into \<open>analyserData\<close> during the callback.
\<close>

record AudioProcessingEvent =
  channelData0 :: Float32Array
  channelData1 :: Float32Array
  frequencyData :: Float32Array

definition new_Recorder :: "IOptionsMaybe \<Rightarrow> Recorder" where
  "new_Recorder opts =
     \<lparr>recording = False, ready = False, bufferLen = 4096,
      options = \<lparr>mono = or_bool (maybe_mono opts) True,
                 quietThresholdTime = or_num (maybe_quietThresholdTime opts) 5,
                 volumeThreshold = or_num (maybe_volumeThreshold opts) (- 60),
                 opt_sampleRate = maybe_sampleRate opts\<rparr>,
      quietTime = 0, maxVolume = Fin 99, analyserData = new_Float32Array 0,
      analyserNode = False, posted = [], dispatched = [], terminated = False\<rparr>"

definition postMessage :: "command \<Rightarrow> Recorder \<Rightarrow> Recorder" where
  "postMessage m r = r\<lparr>posted := posted r @ [m]\<rparr>"

definition dispatchEvent :: "string \<Rightarrow> Recorder \<Rightarrow> Recorder" where
  "dispatchEvent name r = r\<lparr>dispatched := dispatched r @ [name]\<rparr>"

definition setup_recorder :: "AudioContext \<Rightarrow> Recorder \<Rightarrow> Recorder" where
  "setup_recorder ctx r =
     (let r1 = r\<lparr>analyserNode := True,
                  analyserData := new_Float32Array (frequencyBinCount ctx)\<rparr>;
          config = \<lparr>cfg_sampleRate = ctx_sampleRate ctx,
                    cfg_numChannels = (if mono (options r1) then 1 else audioTracks ctx)\<rparr>;
          r2 = postMessage (Init config) r1;
          r3 = r2\<lparr>ready := True, quietTime := currentTime ctx\<rparr>
      in dispatchEvent ''ready'' r3)"

definition start :: "AudioContext \<Rightarrow> Recorder \<Rightarrow> Recorder" where
  "start ctx r =
     (let r1 = (if \<not> ready r then setup_recorder ctx r else r);
          r2 = dispatchEvent ''start'' r1
      in r2\<lparr>recording := True\<rparr>)"

definition Recorder_exportWAV :: "Recorder \<Rightarrow> Recorder" where
  "Recorder_exportWAV r = postMessage (ExportWAV ''audio/wav'' (opt_sampleRate (options r))) r"

definition stop :: "Recorder \<Rightarrow> Recorder" where
  "stop r = Recorder_exportWAV (r\<lparr>recording := False\<rparr>)"

definition reset :: "Recorder \<Rightarrow> Recorder" where
  "reset r = dispatchEvent ''reset'' (postMessage Clear (r\<lparr>recording := False\<rparr>))"

definition kill :: "Recorder \<Rightarrow> Recorder" where
  "kill r = dispatchEvent ''end'' (r\<lparr>terminated := True\<rparr>)"

definition abort :: "Recorder \<Rightarrow> Recorder" where
  "abort r = kill (dispatchEvent ''stop'' r)"

definition Recorder_getBuffer :: "Recorder \<Rightarrow> Recorder" where
  "Recorder_getBuffer r = postMessage GetBuffer r"

definition onWorkerMessage :: "reply \<Rightarrow> Recorder \<Rightarrow> Recorder" where
  "onWorkerMessage m r =
     (case m of Blob type bytes \<Rightarrow> kill (dispatchEvent ''data'' r) | Buffers bs \<Rightarrow> r)"

definition isQuiet :: "AudioContext \<Rightarrow> Recorder \<Rightarrow> Recorder" where
  "isQuiet ctx r =
     (let now = currentTime ctx;
          delta = now - quietTime r;
          isMicQuiet = jlt (maxVolume r) (Fin (volumeThreshold (options r)));
          r1 = (if delta > quietThresholdTime (options r) \<and> isMicQuiet then stop r else r)
      in if \<not> isMicQuiet then r1\<lparr>quietTime := currentTime ctx\<rparr> else r1)"

definition getFloatFrequencyData :: "Float32Array \<Rightarrow> Float32Array \<Rightarrow> Float32Array" where
  "getFloatFrequencyData spectrum array =
     take (length array) spectrum @ drop (length spectrum) array"

definition onAudioProcess :: "AudioContext \<Rightarrow> AudioProcessingEvent \<Rightarrow> Recorder \<Rightarrow> Recorder" where
  "onAudioProcess ctx ev r =
     (if \<not> recording r then r
      else
        (let r1 = dispatchEvent ''audioprocess'' r;
             r2 = postMessage (Record [channelData0 ev, channelData1 ev]) r1;
             r3 = (if analyserNode r2
                   then r2\<lparr>analyserData := getFloatFrequencyData (frequencyData ev) (analyserData r2)\<rparr>
                   else r2);
             r4 = r3\<lparr>maxVolume := Math_max_list (analyserData r3)\<rparr>
         in isQuiet ctx r4))"




section \<open>Closed forms used by the proofs\<close>

text \<open>
  What the loops below are shown to compute: the element of the interleaved array at an
  index, the bytes of a string, of the samples and of the header, the 16-bit value of one
  sample, and the input boundaries of the output samples of the resampler.
\<close>

definition interleaved_at :: "Float32Array \<Rightarrow> Float32Array \<Rightarrow> nat \<Rightarrow> jsnum" where
  "interleaved_at inputL inputR j =
     ToNumber (f32_load (if even j then inputL else inputR) (j div 2))"

definition str_bytes :: "string \<Rightarrow> 8 word list" where
  "str_bytes str = map (\<lambda>c. word_of_int (ToIntegral (charCode c))) str"

definition pcm_bytes :: "Float32Array \<Rightarrow> 8 word list" where
  "pcm_bytes input = concat (map (\<lambda>x. le16 (word_of_int (ToIntegral (pcm_sample x)))) input)"

definition wav_header :: "nat \<Rightarrow> real \<Rightarrow> nat \<Rightarrow> 8 word list" where
  "wav_header n rate channels =
     str_bytes ''RIFF'' @ le32 (word_of_int (ToIntegral (Fin (real (36 + n * 2)))))
     @ str_bytes ''WAVE'' @ str_bytes ''fmt ''
     @ le32 (word_of_int (ToIntegral (Fin 16))) @ le16 (word_of_int (ToIntegral (Fin 1)))
     @ le16 (word_of_int (ToIntegral (Fin (real channels))))
     @ le32 (word_of_int (ToIntegral (Fin rate)))
     @ le32 (word_of_int (ToIntegral (Fin (rate * real channels * 2))))
     @ le16 (word_of_int (ToIntegral (Fin (real (channels * 2)))))
     @ le16 (word_of_int (ToIntegral (Fin 16)))
     @ str_bytes ''data'' @ le32 (word_of_int (ToIntegral (Fin (real (n * 2)))))"

definition pcm_value :: "jsnum \<Rightarrow> int" where
  "pcm_value x = (case x of
        Fin x \<Rightarrow> (let s = max (- 1) (min 1 x) in if s < 0 then \<lceil>s * 32768\<rceil> else \<lfloor>s * 32767\<rfloor>)
      | PInf \<Rightarrow> 32767 | NInf \<Rightarrow> - 32768 | NaN \<Rightarrow> 0)"

text \<open>
  \<open>boundary ratio i\<close> is the value of \<open>offsetBuffer\<close> when the outer loop of
  \<open>downsampleBuffer\<close> starts round \<open>i\<close>: 0 at first, then the \<open>nextOffsetBuffer\<close> of
  the round before, \<open>Math.round\<close> of the binary64 product \<open>i * sampleRateRatio\<close>.
  \<open>block_average\<close> is the body of one round: the inner loop, the division
  \<open>accum / count\<close> and the rounding of the store into the \<open>Float32Array\<close>.
\<close>

definition boundary :: "real \<Rightarrow> nat \<Rightarrow> jsnum" where
  "boundary sampleRateRatio i =
     (if i = 0 then Fin 0 else Math_round_num (fl64 (real i * sampleRateRatio)))"

definition block_average :: "Float32Array \<Rightarrow> jsnum \<Rightarrow> jsnum \<Rightarrow> jsnum" where
  "block_average buffer offsetBuffer nextOffsetBuffer =
     (let ac = accum_from buffer nextOffsetBuffer offsetBuffer
      in fround (jdiv_count (fst ac) (snd ac)))"



text \<open>
  The states of a recorder built by the constructor from the given options and then driven
  through its public methods and its two callbacks, in any order.
\<close>

inductive reachable :: "IOptionsMaybe \<Rightarrow> Recorder \<Rightarrow> bool" for opts where
  reach_new: "reachable opts (new_Recorder opts)"
| reach_start: "reachable opts r \<Longrightarrow> reachable opts (start ctx r)"
| reach_stop: "reachable opts r \<Longrightarrow> reachable opts (stop r)"
| reach_reset: "reachable opts r \<Longrightarrow> reachable opts (reset r)"
| reach_abort: "reachable opts r \<Longrightarrow> reachable opts (abort r)"
| reach_getBuffer: "reachable opts r \<Longrightarrow> reachable opts (Recorder_getBuffer r)"
| reach_onWorkerMessage: "reachable opts r \<Longrightarrow> reachable opts (onWorkerMessage m r)"
| reach_onAudioProcess: "reachable opts r \<Longrightarrow> reachable opts (onAudioProcess ctx ev r)"

definition inits_mono :: "Recorder \<Rightarrow> bool" where
  "inits_mono r \<longleftrightarrow> (\<forall>config. Init config \<in> set (posted r) \<longrightarrow> cfg_numChannels config = 1)"

section \<open>Concrete inputs\<close>

text \<open>
  A context with two audio tracks and two frequency bins, the default and a stereo options
  object, a recorder started at time 0, a quiet and a loud spectrum, and a worker holding
  one chunk of one channel. For the resampler: the binary64 number 47999.99929294376
  (\<open>odd_rate\<close>), the binary64 quotient of 48000 by it (\<open>odd_ratio\<close>), and a recording of
  33943552 samples, about 707 seconds at 48000 Hz.
\<close>

definition ctx0 :: AudioContext where
  "ctx0 = \<lparr>currentTime = 0, ctx_sampleRate = 48000, audioTracks = 2, frequencyBinCount = 2\<rparr>"

definition opts_default :: IOptionsMaybe where
  "opts_default = \<lparr>maybe_mono = None, maybe_quietThresholdTime = None,
          maybe_volumeThreshold = None, maybe_sampleRate = None\<rparr>"

definition opts_stereo :: IOptionsMaybe where
  "opts_stereo = \<lparr>maybe_mono = Some False, maybe_quietThresholdTime = None,
          maybe_volumeThreshold = None, maybe_sampleRate = None\<rparr>"





definition w0 :: worker where
  "w0 = \<lparr>recLength = 2, recBuffers = [[Some [Fin 1, Fin (1 / 2)]]], sampleRate = 44100,
         numChannels = 1\<rparr>"

definition odd_rate :: real where
  "odd_rate = 3298534834739465 / 68719476736"

definition odd_ratio :: real where
  "odd_ratio = 4503599693710043 / 4503599627370496"

definition long_buffer :: Float32Array where
  "long_buffer = replicate 33943552 (Fin 0)"

section \<open>Typed arrays and interleave: lemmas\<close>

lemma length_f32_store [simp]: "length (f32_store a i v) = length a"
  by (simp add: f32_store_def)

lemma nth_f32_store:
  "j < length a \<Longrightarrow> f32_store a i v ! j = (if j = i then ToNumber v else a ! j)"
  by (simp add: f32_store_def)

lemma length_interleave_loop [simp]:
  "length (interleave_loop inputL inputR len index inputIndex result) = length result"
proof (induction inputL inputR len index inputIndex result rule: interleave_loop.induct)
  case (1 inputL inputR len index inputIndex result)
  show ?case
  proof (cases "index < len")
    case True
    with "1.IH" show ?thesis by (subst interleave_loop.simps) simp
  next
    case False
    then show ?thesis by (subst interleave_loop.simps) simp
  qed
qed

lemma nth_interleave_loop:
  "index = 2 * inputIndex \<Longrightarrow> j < length result \<Longrightarrow> length result = len \<Longrightarrow>
   interleave_loop inputL inputR len index inputIndex result ! j =
     (if j < index then result ! j else interleaved_at inputL inputR j)"
proof (induction inputL inputR len index inputIndex result rule: interleave_loop.induct)
  case (1 inputL inputR len index inputIndex result)
  show ?case
  proof (cases "index < len")
    case True
    let ?r = "f32_store (f32_store result index (f32_load inputL inputIndex))
             (index + 1) (f32_load inputR inputIndex)"
    have eq: "interleave_loop inputL inputR len index inputIndex result =
        interleave_loop inputL inputR len (index + 2) (inputIndex + 1) ?r"
      using True by (subst interleave_loop.simps) simp
    have "index + 2 = 2 * (inputIndex + 1)" and "j < length ?r" and "length ?r = len"
      using "1.prems" by simp_all
    from "1.IH" [OF True this]
    have step: "interleave_loop inputL inputR len index inputIndex result ! j =
        (if j < index + 2 then ?r ! j else interleaved_at inputL inputR j)"
      by (simp only: eq)
    have "?r ! j = interleaved_at inputL inputR j" if "j < index + 2" and "\<not> j < index"
    proof -
      from that have "j = 2 * inputIndex \<or> j = 2 * inputIndex + 1"
        using "1.prems" by arith
      then show ?thesis
        using "1.prems" by (auto simp: nth_f32_store interleaved_at_def)
    qed
    moreover have "j < index \<Longrightarrow> ?r ! j = result ! j"
      using "1.prems" by (simp add: nth_f32_store)
    ultimately show ?thesis using step by auto
  next
    case False
    then show ?thesis using "1.prems" by (subst interleave_loop.simps) simp
  qed
qed

lemma length_interleave: "length (interleave inputL inputR) = length inputL + length inputR"
  by (simp add: interleave_def new_Float32Array_def Let_def)

lemma nth_interleave:
  "j < length inputL + length inputR \<Longrightarrow>
   interleave inputL inputR ! j = interleaved_at inputL inputR j"
  by (simp add: interleave_def Let_def nth_interleave_loop new_Float32Array_def)

section \<open>The encoder: lemmas\<close>

lemma length_le16 [simp]: "length (le16 w) = 2"
  by (simp add: le16_def)

lemma length_le32 [simp]: "length (le32 w) = 4"
  by (simp add: le32_def)

lemma setBytes_append:
  "length pre = offset \<Longrightarrow> length bs \<le> length rest \<Longrightarrow>
   setBytes (pre @ rest) offset bs = Inr ((pre @ bs) @ drop (length bs) rest)"
  by (simp add: setBytes_def)

lemma bind_err_Inr [simp]: "bind_err (Inr x) f = f x"
  by (simp add: bind_err_def)

lemma bind_err_Inl [simp]: "bind_err (Inl e) f = Inl e"
  by (simp add: bind_err_def)

lemma writeString_append:
  "length pre = offset \<Longrightarrow> length str \<le> length rest \<Longrightarrow>
   writeString (pre @ rest) offset str = Inr ((pre @ str_bytes str) @ drop (length str) rest)"
proof (induction str arbitrary: pre rest offset)
  case Nil
  then show ?case by (simp add: str_bytes_def)
next
  case (Cons c str)
  from Cons.prems obtain b rest' where rest: "rest = b # rest'"
    by (cases rest) auto
  let ?b = "word_of_int (ToIntegral (charCode c)) :: 8 word"
  have "setUint8 (pre @ rest) offset (charCode c) = Inr ((pre @ [?b]) @ rest')"
    using Cons.prems by (simp add: setUint8_def setBytes_def rest)
  moreover have "writeString ((pre @ [?b]) @ rest') (offset + 1) str
      = Inr (((pre @ [?b]) @ str_bytes str) @ drop (length str) rest')"
    using Cons.prems by (intro Cons.IH) (simp_all add: rest)
  ultimately show ?case by (simp add: rest str_bytes_def)
qed

lemma floatTo16BitPCM_append:
  "length pre = offset \<Longrightarrow> length rest = 2 * length input \<Longrightarrow>
   floatTo16BitPCM (pre @ rest) offset input = Inr (pre @ pcm_bytes input)"
proof (induction input arbitrary: pre rest offset)
  case Nil
  then show ?case by (simp add: pcm_bytes_def)
next
  case (Cons x input)
  let ?bs = "le16 (word_of_int (ToIntegral (pcm_sample x)))"
  have "setInt16 (pre @ rest) offset (pcm_sample x) = Inr ((pre @ ?bs) @ drop 2 rest)"
    using Cons.prems by (simp add: setInt16_def setBytes_append)
  moreover have "floatTo16BitPCM ((pre @ ?bs) @ drop 2 rest) (offset + 2) input
      = Inr ((pre @ ?bs) @ pcm_bytes input)"
    using Cons.prems by (intro Cons.IH) simp_all
  ultimately show ?case by (simp add: pcm_bytes_def)
qed

lemma setUint32_append:
  "length pre = offset \<Longrightarrow> 4 \<le> length rest \<Longrightarrow>
   setUint32 (pre @ rest) offset v = Inr ((pre @ le32 (word_of_int (ToIntegral v))) @ drop 4 rest)"
  by (simp add: setUint32_def setBytes_append)

lemma setUint16_append:
  "length pre = offset \<Longrightarrow> 2 \<le> length rest \<Longrightarrow>
   setUint16 (pre @ rest) offset v = Inr ((pre @ le16 (word_of_int (ToIntegral v))) @ drop 2 rest)"
  by (simp add: setUint16_def setBytes_append)

lemma length_str_bytes [simp]: "length (str_bytes s) = length s"
  by (simp add: str_bytes_def)

lemma writeString_field:
  "length pre = offset \<Longrightarrow> length str = k \<Longrightarrow> k \<le> length rest \<Longrightarrow> drop k rest = rest' \<Longrightarrow>
   writeString (pre @ rest) offset str = Inr ((pre @ str_bytes str) @ rest')"
  using writeString_append [of pre offset str rest] by simp

lemma setUint32_field:
  "length pre = offset \<Longrightarrow> 4 \<le> length rest \<Longrightarrow> drop 4 rest = rest' \<Longrightarrow>
   setUint32 (pre @ rest) offset v = Inr ((pre @ le32 (word_of_int (ToIntegral v))) @ rest')"
  using setUint32_append [of pre offset rest v] by simp

lemma setUint16_field:
  "length pre = offset \<Longrightarrow> 2 \<le> length rest \<Longrightarrow> drop 2 rest = rest' \<Longrightarrow>
   setUint16 (pre @ rest) offset v = Inr ((pre @ le16 (word_of_int (ToIntegral v))) @ rest')"
  using setUint16_append [of pre offset rest v] by simp

lemma encodeWAV_bytes:
  "encodeWAV samples rate channels =
     Inr (wav_header (length samples) rate channels @ pcm_bytes samples)"
proof -
  let ?n = "length samples"
  define z where "z k = replicate (k + ?n * 2) (0 :: 8 word)" for k
  have lz: "length (z k) = k + ?n * 2" for k
    by (simp add: z_def)
  define f0 where "f0 = str_bytes ''RIFF''"
  define f1 where "f1 = f0 @ le32 (word_of_int (ToIntegral (Fin (real (36 + ?n * 2)))))"
  define f2 where "f2 = f1 @ str_bytes ''WAVE''"
  define f3 where "f3 = f2 @ str_bytes ''fmt ''"
  define f4 where "f4 = f3 @ le32 (word_of_int (ToIntegral (Fin 16)))"
  define f5 where "f5 = f4 @ le16 (word_of_int (ToIntegral (Fin 1)))"
  define f6 where "f6 = f5 @ le16 (word_of_int (ToIntegral (Fin (real channels))))"
  define f7 where "f7 = f6 @ le32 (word_of_int (ToIntegral (Fin rate)))"
  define f8 where "f8 = f7 @ le32 (word_of_int (ToIntegral (Fin (rate * real channels * 2))))"
  define f9 where "f9 = f8 @ le16 (word_of_int (ToIntegral (Fin (real (channels * 2)))))"
  define f10 where "f10 = f9 @ le16 (word_of_int (ToIntegral (Fin 16)))"
  define f11 where "f11 = f10 @ str_bytes ''data''"
  define f12 where "f12 = f11 @ le32 (word_of_int (ToIntegral (Fin (real (?n * 2)))))"
  note fs = f0_def f1_def f2_def f3_def f4_def f5_def f6_def f7_def f8_def f9_def f10_def
    f11_def f12_def
  have w0: "writeString (new_DataView (44 + ?n * 2)) 0 ''RIFF'' = Inr (f0 @ z 40)"
  proof -
    have "writeString ([] @ z 44) 0 ''RIFF'' = Inr (([] @ str_bytes ''RIFF'') @ z 40)"
      by (rule writeString_field [where k = 4]) (simp_all add: z_def)
    then show ?thesis by (simp add: new_DataView_def z_def f0_def)
  qed
  have w1: "setUint32 (f0 @ z 40) 4 v = Inr ((f0 @ le32 (word_of_int (ToIntegral v))) @ z 36)" for v
    by (rule setUint32_field) (simp_all add: fs z_def)
  have w2: "writeString (f1 @ z 36) 8 ''WAVE'' = Inr ((f1 @ str_bytes ''WAVE'') @ z 32)"
    by (rule writeString_field [where k = 4]) (simp_all add: fs z_def)
  have w3: "writeString (f2 @ z 32) 12 ''fmt '' = Inr ((f2 @ str_bytes ''fmt '') @ z 28)"
    by (rule writeString_field [where k = 4]) (simp_all add: fs z_def)
  have w4: "setUint32 (f3 @ z 28) 16 v = Inr ((f3 @ le32 (word_of_int (ToIntegral v))) @ z 24)" for v
    by (rule setUint32_field) (simp_all add: fs z_def)
  have w5: "setUint16 (f4 @ z 24) 20 v = Inr ((f4 @ le16 (word_of_int (ToIntegral v))) @ z 22)" for v
    by (rule setUint16_field) (simp_all add: fs z_def)
  have w6: "setUint16 (f5 @ z 22) 22 v = Inr ((f5 @ le16 (word_of_int (ToIntegral v))) @ z 20)" for v
    by (rule setUint16_field) (simp_all add: fs z_def)
  have w7: "setUint32 (f6 @ z 20) 24 v = Inr ((f6 @ le32 (word_of_int (ToIntegral v))) @ z 16)" for v
    by (rule setUint32_field) (simp_all add: fs z_def)
  have w8: "setUint32 (f7 @ z 16) 28 v = Inr ((f7 @ le32 (word_of_int (ToIntegral v))) @ z 12)" for v
    by (rule setUint32_field) (simp_all add: fs z_def)
  have w9: "setUint16 (f8 @ z 12) 32 v = Inr ((f8 @ le16 (word_of_int (ToIntegral v))) @ z 10)" for v
    by (rule setUint16_field) (simp_all add: fs z_def)
  have w10: "setUint16 (f9 @ z 10) 34 v = Inr ((f9 @ le16 (word_of_int (ToIntegral v))) @ z 8)" for v
    by (rule setUint16_field) (simp_all add: fs z_def)
  have w11: "writeString (f10 @ z 8) 36 ''data'' = Inr ((f10 @ str_bytes ''data'') @ z 4)"
    by (rule writeString_field [where k = 4]) (simp_all add: fs z_def)
  have w12: "setUint32 (f11 @ z 4) 40 v = Inr ((f11 @ le32 (word_of_int (ToIntegral v))) @ z 0)" for v
    by (rule setUint32_field) (simp_all add: fs z_def)
  have w13: "floatTo16BitPCM (f12 @ z 0) 44 samples = Inr (f12 @ pcm_bytes samples)"
    by (rule floatTo16BitPCM_append) (simp_all add: fs lz)
  have hdr: "f12 = wav_header ?n rate channels"
    by (simp add: fs wav_header_def)
  show ?thesis
    unfolding encodeWAV_def Let_def
    apply (simp only: w0 bind_err_Inr)
    apply (simp only: w1 bind_err_Inr flip: f1_def)
    apply (simp only: w2 bind_err_Inr flip: f2_def)
    apply (simp only: w3 bind_err_Inr flip: f3_def)
    apply (simp only: w4 bind_err_Inr flip: f4_def)
    apply (simp only: w5 bind_err_Inr flip: f5_def)
    apply (simp only: w6 bind_err_Inr flip: f6_def)
    apply (simp only: w7 bind_err_Inr flip: f7_def)
    apply (simp only: w8 bind_err_Inr flip: f8_def)
    apply (simp only: w9 bind_err_Inr flip: f9_def)
    apply (simp only: w10 bind_err_Inr flip: f10_def)
    apply (simp only: w11 bind_err_Inr flip: f11_def)
    apply (simp only: w12 bind_err_Inr flip: f12_def)
    apply (simp only: w13)
    apply (simp only: hdr)
    done
qed

lemma length_wav_header [simp]: "length (wav_header n rate channels) = 44"
  by (simp add: wav_header_def)

lemma bytes_of_nat16:
  fixes a :: nat
  assumes "a < 65536"
  shows "a mod 256 + 256 * (a div 256 mod 256) = a"
proof -
  have "a div 256 < 256" using assms by simp
  then have "a div 256 mod 256 = a div 256" by simp
  then show ?thesis by simp
qed

lemma bytes_of_nat32:
  fixes a :: nat
  assumes "a < 4294967296"
  shows "a mod 256 + 256 * (a div 256 mod 256) + 65536 * (a div 65536 mod 256)
           + 16777216 * (a div 16777216 mod 256) = a"
proof -
  have d1: "a div 65536 = a div 256 div 256" and d2: "a div 16777216 = a div 65536 div 256"
    by (simp_all add: div_mult2_eq)
  have "a div 16777216 < 256" using assms by simp
  then have e3: "a div 16777216 mod 256 = a div 16777216" by simp
  have e0: "a = a mod 256 + 256 * (a div 256)" by simp
  have e1: "a div 256 = a div 256 mod 256 + 256 * (a div 65536)"
    unfolding d1 by simp
  have e2: "a div 65536 = a div 65536 mod 256 + 256 * (a div 16777216)"
    unfolding d2 by simp
  show ?thesis using e0 e1 e2 e3 by linarith
qed

lemma unat_le16: "unat (ucast (w::16 word) :: 8 word) + 256 * unat (ucast (drop_bit 8 w) :: 8 word) = unat w"
proof -
  have "unat w < 65536" using unsigned_less [of w, where 'a = nat] by simp
  from bytes_of_nat16 [OF this] show ?thesis
    unfolding unsigned_ucast_eq unat_drop_bit_eq take_bit_eq_mod
    by (simp add: drop_bit_eq_div)
qed

lemma unat_le32: "unat (ucast (w::32 word) :: 8 word) + 256 * unat (ucast (drop_bit 8 w) :: 8 word)
   + 65536 * unat (ucast (drop_bit 16 w) :: 8 word) + 16777216 * unat (ucast (drop_bit 24 w) :: 8 word) = unat w"
proof -
  have lt: "unat w < 4294967296" using unsigned_less [of w, where 'a = nat] by simp
  then have "unat w div 16777216 mod 256 = unat w div 16777216" by simp
  with bytes_of_nat32 [OF lt] show ?thesis
    unfolding unsigned_ucast_eq unat_drop_bit_eq take_bit_eq_mod
    by (simp add: drop_bit_eq_div)
qed

lemma getUint16_le16: "getUint16 (pre @ le16 w @ rest) (length pre) = unat w"
  using unat_le16 [of w] by (simp add: getUint16_def le16_def nth_append)

lemma getUint32_le32: "getUint32 (pre @ le32 w @ rest) (length pre) = unat w"
  using unat_le32 [of w] by (simp add: getUint32_def le32_def nth_append)

lemma unat_word_of_int16: "int (unat (word_of_int v :: 16 word)) = v mod 65536"
  by (simp add: unsigned_of_int take_bit_eq_mod)

lemma getInt16_le16:
  assumes "- 32768 \<le> v" and "v < 32768"
  shows "getInt16 (pre @ le16 (word_of_int v) @ rest) (length pre) = v"
proof -
  have "int (getUint16 (pre @ le16 (word_of_int v) @ rest) (length pre)) = v mod 65536"
    by (simp only: getUint16_le16 unat_word_of_int16)
  moreover have "v mod 65536 = (if 0 \<le> v then v else v + 65536)"
  proof (cases "0 \<le> v")
    case True
    then show ?thesis using assms by simp
  next
    case False
    have "v mod 65536 = (v + 65536) mod 65536" by simp
    also have "\<dots> = v + 65536" using assms False by (intro mod_pos_pos_trivial) simp_all
    finally show ?thesis using False by simp
  qed
  ultimately show ?thesis using assms by (simp add: getInt16_def Let_def)
qed

lemma ascii_RIFF: "map (\<lambda>b. char_of (unat b)) [82, 73, 70, 70 :: 8 word] = ''RIFF''"
  by code_simp

lemma ascii_WAVE: "map (\<lambda>b. char_of (unat b)) [87, 65, 86, 69 :: 8 word] = ''WAVE''"
  by code_simp

lemma ascii_fmt: "map (\<lambda>b. char_of (unat b)) [102, 109, 116, 32 :: 8 word] = ''fmt ''"
  by code_simp

lemma ascii_data: "map (\<lambda>b. char_of (unat b)) [100, 97, 116, 97 :: 8 word] = ''data''"
  by code_simp

lemma str_bytes_tags:
  "str_bytes ''RIFF'' = [82, 73, 70, 70]" "str_bytes ''WAVE'' = [87, 65, 86, 69]"
  "str_bytes ''fmt '' = [102, 109, 116, 32]" "str_bytes ''data'' = [100, 97, 116, 97]"
  by (simp_all add: str_bytes_def charCode_def)

lemma ToIntegral_real: "ToIntegral (Fin (real m)) = int m"
  by simp

lemma unat_word_of_nat32: "unat (word_of_nat m :: 32 word) = m mod 2 ^ 32"
  by (simp add: unsigned_of_nat take_bit_eq_mod)

lemma unat_word_of_nat16: "unat (word_of_nat m :: 16 word) = m mod 2 ^ 16"
  by (simp add: unsigned_of_nat take_bit_eq_mod)

lemma unat_word_of_int32: "int (unat (word_of_int v :: 32 word)) = v mod 2 ^ 32"
  by (simp add: unsigned_of_int take_bit_eq_mod)

lemma wav_header_fields:
  "wav_header n rate channels =
     [82, 73, 70, 70] @ le32 (word_of_nat (36 + 2 * n))
       @ [87, 65, 86, 69] @ [102, 109, 116, 32]
       @ le32 16 @ le16 1 @ le16 (word_of_nat channels)
       @ le32 (word_of_int (ToIntegral (Fin rate)))
       @ le32 (word_of_int (ToIntegral (Fin (rate * real channels * 2))))
       @ le16 (word_of_nat (channels * 2)) @ le16 16
       @ [100, 97, 116, 97] @ le32 (word_of_nat (2 * n))"
  unfolding wav_header_def str_bytes_tags ToIntegral_real
  by (simp add: mult.commute)

lemma ToIntegral_pcm_sample: "ToIntegral (pcm_sample x) = pcm_value x"
proof (cases x)
  case (Fin a)
  define s where "s = max (- 1) (min 1 a)"
  have "Math_max (Fin (- 1)) (Math_min (Fin 1) (Fin a)) = Fin s"
    by (simp add: Math_max_def Math_min_def max_def min_def s_def)
  then have "pcm_sample x = (if s < 0 then Fin (s * 32768) else Fin (s * 32767))"
    by (simp add: Fin pcm_sample_def)
  moreover have "pcm_value x = (if s < 0 then \<lceil>s * 32768\<rceil> else \<lfloor>s * 32767\<rfloor>)"
    unfolding Fin pcm_value_def s_def Let_def by (simp only: jsnum.case)
  ultimately show ?thesis
    by (simp add: mult_less_0_iff)
qed (simp_all add: pcm_sample_def pcm_value_def Math_max_def Math_min_def)

lemma pcm_value_range: "- 32768 \<le> pcm_value x \<and> pcm_value x < 32768"
proof (cases x)
  case (Fin a)
  define s where "s = max (- 1) (min 1 a)"
  have s: "- 1 \<le> s" "s \<le> 1" by (simp_all add: s_def)
  show ?thesis
  proof (cases "s < 0")
    case True
    have "- 32768 \<le> s * 32768" using s by simp
    then have "- 32768 \<le> \<lceil>s * 32768\<rceil>" by linarith
    moreover have "\<lceil>s * 32768\<rceil> \<le> 0" using True by (simp add: ceiling_le_iff mult_le_0_iff)
    ultimately show ?thesis using True by (simp add: Fin pcm_value_def Let_def flip: s_def)
  next
    case False
    have "s * 32767 \<le> 32767" using s by simp
    then have "\<lfloor>s * 32767\<rfloor> \<le> 32767" by linarith
    moreover have "0 \<le> \<lfloor>s * 32767\<rfloor>" using False by simp
    ultimately show ?thesis using False by (simp add: Fin pcm_value_def Let_def flip: s_def)
  qed
qed (simp_all add: pcm_value_def)

lemma length_pcm_bytes [simp]: "length (pcm_bytes input) = 2 * length input"
  by (induction input) (simp_all add: pcm_bytes_def)

lemma pcm_bytes_append: "pcm_bytes (xs @ ys) = pcm_bytes xs @ pcm_bytes ys"
  by (simp add: pcm_bytes_def)

lemma pcm_bytes_split:
  assumes "i < length input"
  shows "pcm_bytes input = pcm_bytes (take i input)
           @ le16 (word_of_int (pcm_value (input ! i))) @ pcm_bytes (drop (Suc i) input)"
proof -
  have "input = take i input @ [input ! i] @ drop (Suc i) input"
    using assms by (simp add: id_take_nth_drop)
  then have "pcm_bytes input = pcm_bytes (take i input @ [input ! i] @ drop (Suc i) input)"
    by simp
  then show ?thesis
    by (simp add: pcm_bytes_append) (simp add: pcm_bytes_def ToIntegral_pcm_sample)
qed

lemma encodeWAV_example: "encodeWAV [Fin (1 / 2), Fin (- 1 / 2), Fin 2] 44100 1 = Inr [82, 73, 70, 70, 42, 0, 0, 0, 87, 65, 86, 69, 102, 109, 116, 32, 16, 0, 0, 0, 1, 0, 1, 0,
68, 172, 0, 0, 136, 88, 1, 0, 2, 0, 16, 0, 100, 97, 116, 97, 6, 0, 0, 0, 255, 63, 0, 192, 255, 127]"
  by code_simp

section \<open>The resampler: lemmas\<close>

subsection \<open>Rounding\<close>

lemma two_powi_Suc: "(2::real) powi (e + 1) = 2 * 2 powi e"
  by (simp add: power_int_add)

lemma two_powi_pred: "(2::real) powi (e - 1) = 2 powi e / 2"
  by (simp add: power_int_diff)

lemma two_powi_less_cancel: "(2::real) powi m < 2 powi n \<Longrightarrow> m < n"
  using power_int_increasing [of n m "2::real"] by (cases "m < n") auto

lemma exponent2_eq:
  "0 < x \<Longrightarrow> 2 powi e \<le> x \<Longrightarrow> x < 2 powi (e + 1) \<Longrightarrow> exponent2 x = e"
proof (induction x arbitrary: e rule: exponent2.induct)
  case (1 x)
  show ?case
  proof (cases "2 \<le> x")
    case True
    have "2 powi (e - 1) \<le> x / 2" and "x / 2 < 2 powi (e - 1 + 1)"
      using "1.prems" by (simp_all add: two_powi_pred two_powi_Suc)
    then have "exponent2 (x / 2) = e - 1"
      using "1.IH"(1) [of "e - 1"] "1.prems"(1) True by simp
    then show ?thesis using True "1.prems"(1) by (subst exponent2.simps) simp
  next
    case False
    show ?thesis
    proof (cases "x < 1")
      case True
      have "(2::real) powi (e + 1 + 1) = 2 * (2 * 2 powi e)"
        by (simp only: two_powi_Suc)
      then have "2 powi (e + 1) \<le> x * 2" and "x * 2 < 2 powi (e + 1 + 1)"
        using "1.prems" by (simp_all add: two_powi_Suc)
      then have "exponent2 (x * 2) = e + 1"
        using "1.IH"(2) [of "e + 1"] "1.prems"(1) True False by simp
      then show ?thesis using True False "1.prems"(1) by (subst exponent2.simps) simp
    next
      case nlt: False
      have "(2::real) powi e < 2 powi 1" using "1.prems" False by simp
      then have "e < 1" by (rule two_powi_less_cancel)
      moreover have "(2::real) powi 0 < 2 powi (e + 1)" using "1.prems" nlt by simp
      then have "0 < e + 1" by (rule two_powi_less_cancel)
      ultimately have "e = 0" by simp
      then show ?thesis using False nlt "1.prems"(1) by (subst exponent2.simps) simp
    qed
  qed
qed

lemma round_binary_eval:
  assumes "x \<noteq> 0" and "2 powi e \<le> \<bar>x\<bar>" and "\<bar>x\<bar> < 2 powi (e + 1)" and "emin \<le> e"
  shows "round_binary p emin x =
     of_int (round_ties_even (x / 2 powi (e - int p + 1))) * 2 powi (e - int p + 1)"
proof -
  have "exponent2 \<bar>x\<bar> = e" using assms by (intro exponent2_eq) simp_all
  then show ?thesis using assms by (simp add: round_binary_def Let_def max_def)
qed

lemma fl64_eval:
  assumes "x \<noteq> 0" and "2 powi e \<le> \<bar>x\<bar>" and "\<bar>x\<bar> < 2 powi (e + 1)" and "- 1022 \<le> e"
    and "of_int (round_ties_even (x / 2 powi (e - 52))) * 2 powi (e - 52) = y"
    and "2 powi e' \<le> \<bar>y\<bar>" and "\<bar>y\<bar> < 2 powi (e' + 1)" and "e' < 1024"
  shows "fl64 x = Fin y"
proof -
  have "round_binary 53 (- 1022) x = y"
    using round_binary_eval [OF assms(1-4), of 53] assms(5) by simp
  moreover have "(0::real) < 2 powi e'" by simp
  then have "0 < \<bar>y\<bar>" using assms(6) by linarith
  then have "exponent2 \<bar>y\<bar> = e'" using assms(6,7) by (intro exponent2_eq)
  ultimately show ?thesis using assms(8) by (simp add: fl64_def)
qed

lemma round_ties_even_nonneg: "0 \<le> q \<Longrightarrow> 0 \<le> round_ties_even q"
  by (simp add: round_ties_even_def Let_def)

lemma round_ties_even_nonpos: "q \<le> 0 \<Longrightarrow> round_ties_even q \<le> 0"
proof -
  assume q: "q \<le> 0"
  show ?thesis
  proof (cases "\<lfloor>q\<rfloor> = 0")
    case True
    then have "q = 0" using q by (simp add: floor_eq_iff)
    then show ?thesis by (simp add: round_ties_even_def)
  next
    case False
    moreover have "\<lfloor>q\<rfloor> \<le> 0" using q by simp
    ultimately have "\<lfloor>q\<rfloor> + 1 \<le> 0" by linarith
    then show ?thesis by (simp add: round_ties_even_def Let_def)
  qed
qed

lemma round_binary_nonneg: "0 \<le> x \<Longrightarrow> 0 \<le> round_binary p emin x"
  by (simp add: round_binary_def Let_def round_ties_even_nonneg)

lemma round_binary_nonpos: "x \<le> 0 \<Longrightarrow> round_binary p emin x \<le> 0"
proof -
  assume x: "x \<le> 0"
  have "round_ties_even (x / u) \<le> 0" if "0 < u" for u :: real
    using x that by (intro round_ties_even_nonpos) (simp add: divide_nonpos_pos)
  then show ?thesis
    by (simp add: round_binary_def Let_def mult_le_0_iff)
qed

lemma exponent2_nonpos [simp]: "x \<le> 0 \<Longrightarrow> exponent2 x = 0"
  by (subst exponent2.simps) simp

lemma fl64_nonneg: "0 \<le> x \<Longrightarrow> fl64 x \<noteq> NInf \<and> fl64 x \<noteq> NaN \<and> (\<forall>y. fl64 x = Fin y \<longrightarrow> 0 \<le> y)"
  using round_binary_nonneg [of x 53 "- 1022"]
  by (auto simp: fl64_def Let_def)

lemma fl64_nonpos: "x \<le> 0 \<Longrightarrow> fl64 x = Fin y \<Longrightarrow> y \<le> 0"
  using round_binary_nonpos [of x 53 "- 1022"]
  by (auto simp: fl64_def Let_def split: if_splits)

lemma fl64_not_NaN: "fl64 x \<noteq> NaN"
  by (simp add: fl64_def Let_def)

subsection \<open>The loops\<close>

lemma boundary_Suc: "boundary ratio (Suc i) = Math_round_num (fl64 (real (i + 1) * ratio))"
  by (simp add: boundary_def)

lemma boundary_not_NInf: "0 < ratio \<Longrightarrow> boundary ratio i \<noteq> NInf"
  using fl64_nonneg [of "real i * ratio"]
  by (auto simp: boundary_def Math_round_num_def split: jsnum.splits)

lemma boundary_integral: "boundary ratio i = Fin a \<Longrightarrow> of_int \<lfloor>a\<rfloor> = a"
  by (auto simp: boundary_def Math_round_num_def split: if_splits jsnum.splits)

lemma length_downsample_loop [simp]:
  "length (downsample_loop buffer ratio offsetResult offsetBuffer result) = length result"
proof (induction buffer ratio offsetResult offsetBuffer result rule: downsample_loop.induct)
  case (1 buffer ratio offsetResult offsetBuffer result)
  show ?case
  proof (cases "offsetResult < length result")
    case True
    with "1.IH" show ?thesis
      by (subst downsample_loop.simps) (simp add: Let_def)
  next
    case False
    then show ?thesis by (subst downsample_loop.simps) simp
  qed
qed

lemma nth_downsample_loop:
  "offsetBuffer = boundary ratio offsetResult \<Longrightarrow> j < length result \<Longrightarrow>
   downsample_loop buffer ratio offsetResult offsetBuffer result ! j =
     (if j < offsetResult then result ! j
      else block_average buffer (boundary ratio j) (boundary ratio (Suc j)))"
proof (induction buffer ratio offsetResult offsetBuffer result rule: downsample_loop.induct)
  case (1 buffer ratio offsetResult offsetBuffer result)
  show ?case
  proof (cases "offsetResult < length result")
    case True
    let ?next = "Math_round_num (fl64 (real (offsetResult + 1) * ratio))"
    let ?ac = "accum_from buffer ?next offsetBuffer"
    let ?r = "f32_store result offsetResult (Some (fround (jdiv_count (fst ?ac) (snd ?ac))))"
    have eq: "downsample_loop buffer ratio offsetResult offsetBuffer result =
        downsample_loop buffer ratio (offsetResult + 1) ?next ?r"
      using True by (subst downsample_loop.simps) (simp add: Let_def)
    have "?next = boundary ratio (offsetResult + 1)" and "j < length ?r"
      using "1.prems" by (simp_all add: boundary_def)
    from "1.IH" [OF True refl refl this]
    have step: "downsample_loop buffer ratio offsetResult offsetBuffer result ! j =
        (if j < offsetResult + 1 then ?r ! j
         else block_average buffer (boundary ratio j) (boundary ratio (Suc j)))"
      by (simp only: eq)
    have "?r ! offsetResult = block_average buffer (boundary ratio offsetResult)
        (boundary ratio (Suc offsetResult))"
      using True "1.prems"(1)
      by (simp add: nth_f32_store block_average_def boundary_Suc ToNumber_def Let_def)
    moreover have "j < offsetResult \<Longrightarrow> ?r ! j = result ! j"
      using "1.prems" by (simp add: nth_f32_store)
    ultimately show ?thesis using step by (cases "j = offsetResult") auto
  next
    case False
    then show ?thesis using "1.prems" by (subst downsample_loop.simps) simp
  qed
qed

lemma accum_loop_empty:
  "\<not> (jlt (Fin (of_int i)) nextOffsetBuffer \<and> i < int (length buffer)) \<Longrightarrow>
   accum_loop buffer nextOffsetBuffer i accum count = (accum, count)"
  by (subst accum_loop.simps) auto

lemma accum_loop_count_mono:
  "count \<le> snd (accum_loop buffer nextOffsetBuffer i accum count)"
proof (induction buffer nextOffsetBuffer i accum count rule: accum_loop.induct)
  case (1 buffer nextOffsetBuffer i accum count)
  show ?case
  proof (cases "jlt (Fin (of_int i)) nextOffsetBuffer \<and> i < int (length buffer)")
    case True
    with "1.IH" show ?thesis
      by (subst accum_loop.simps) (simp add: Suc_leD)
  next
    case False
    then show ?thesis by (simp add: accum_loop_empty)
  qed
qed

lemma accum_loop_count_pos:
  assumes "jlt (Fin (of_int i)) nextOffsetBuffer \<and> i < int (length buffer)"
  shows "count < snd (accum_loop buffer nextOffsetBuffer i accum count)"
proof -
  have "Suc count \<le> snd (accum_loop buffer nextOffsetBuffer (i + 1)
      (jadd accum (ToNumber (f32_load_int buffer i))) (Suc count))"
    by (rule accum_loop_count_mono)
  then show ?thesis using assms by (subst accum_loop.simps) simp
qed

text \<open>The range of an output index, as the two tests of the inner loop see it.\<close>

lemma accum_from_range:
  assumes "of_int \<lfloor>a\<rfloor> = a"
  shows "(jlt (Fin (of_int \<lfloor>a\<rfloor>)) next \<and> \<lfloor>a\<rfloor> < int (length buffer)) \<longleftrightarrow>
         (jlt (Fin a) next \<and> jlt (Fin a) (Fin (real (length buffer))))"
proof -
  have "\<lfloor>a\<rfloor> < int (length buffer) \<longleftrightarrow> a < real (length buffer)"
    by (metis assms of_int_less_iff of_int_of_nat_eq)
  then show ?thesis by (simp add: assms)
qed

lemma accum_from_empty:
  assumes "\<not> (jlt offsetBuffer next \<and> jlt offsetBuffer (Fin (real (length buffer))))"
    and "\<And>a. offsetBuffer = Fin a \<Longrightarrow> of_int \<lfloor>a\<rfloor> = a" and "offsetBuffer \<noteq> NInf"
  shows "accum_from buffer next offsetBuffer = (Fin 0, 0)"
proof (cases offsetBuffer)
  case (Fin a)
  then have "\<not> (jlt (Fin (of_int \<lfloor>a\<rfloor>)) next \<and> \<lfloor>a\<rfloor> < int (length buffer))"
    using assms(1,2) accum_from_range [of a "next" buffer] by simp
  then show ?thesis by (simp add: accum_from_def Fin accum_loop_empty)
qed (simp_all add: accum_from_def)

lemma accum_from_nonempty:
  assumes "jlt offsetBuffer next \<and> jlt offsetBuffer (Fin (real (length buffer)))"
    and "\<And>a. offsetBuffer = Fin a \<Longrightarrow> of_int \<lfloor>a\<rfloor> = a" and "offsetBuffer \<noteq> NInf"
  shows "0 < snd (accum_from buffer next offsetBuffer)"
proof (cases offsetBuffer)
  case (Fin a)
  then have "jlt (Fin (of_int \<lfloor>a\<rfloor>)) next \<and> \<lfloor>a\<rfloor> < int (length buffer)"
    using assms(1,2) accum_from_range [of a "next" buffer] by simp
  then show ?thesis by (simp add: accum_from_def Fin accum_loop_count_pos)
next
  case PInf
  then show ?thesis using assms(1) by simp
next
  case NInf
  then show ?thesis using assms(3) by simp
next
  case NaN
  then show ?thesis using assms(1) by simp
qed

lemma block_average_empty:
  "accum_from buffer next offsetBuffer = (Fin 0, 0) \<Longrightarrow>
   block_average buffer offsetBuffer next = NaN"
  by (simp add: block_average_def fround_def)

lemma downsampleBuffer_loop:
  assumes "downsampleBuffer buffer rate srate = Inr result" and "rate \<noteq> srate"
    and "result \<noteq> []"
  shows "\<exists>ratio q. fl64 (srate / rate) = Fin ratio \<and> ratio \<noteq> 0 \<and>
           fl64 (real (length buffer) / ratio) = Fin q \<and> 0 \<le> Math_round q \<and>
           result = downsample_loop buffer ratio 0 (Fin 0) (new_Float32Array (nat (Math_round q)))"
  using assms
  by (auto simp: downsampleBuffer_def new_Float32Array_def Let_def
      split: if_splits jsnum.splits)

lemma downsampleBuffer_ratio_pos:
  assumes "downsampleBuffer buffer rate srate = Inr result" and "rate \<noteq> srate"
    and "result \<noteq> []"
  shows "\<exists>ratio. fl64 (srate / rate) = Fin ratio \<and> 0 < ratio"
proof -
  from downsampleBuffer_loop [OF assms] obtain ratio q where
    r: "fl64 (srate / rate) = Fin ratio" "ratio \<noteq> 0"
    and q: "fl64 (real (length buffer) / ratio) = Fin q"
    and res: "result = downsample_loop buffer ratio 0 (Fin 0) (new_Float32Array (nat (Math_round q)))"
    by blast
  have "length result = nat (Math_round q)"
    by (subst res) (simp add: new_Float32Array_def)
  with assms(3) have "0 < Math_round q" by (cases "0 < Math_round q") auto
  then have "0 < q" by (simp add: Math_round_def)
  have "0 < ratio"
  proof (rule ccontr)
    assume "\<not> 0 < ratio"
    then have "real (length buffer) / ratio \<le> 0" by (simp add: divide_nonneg_nonpos)
    from fl64_nonpos [OF this q] \<open>0 < q\<close> show False by simp
  qed
  with r show ?thesis by blast
qed

lemma downsampleBuffer_blocks:
  assumes "downsampleBuffer buffer rate srate = Inr result" and "rate \<noteq> srate"
    and "i < length result" and "fl64 (srate / rate) = Fin ratio"
  shows "result ! i = block_average buffer (boundary ratio i) (boundary ratio (Suc i))"
proof -
  from assms(3) have ne: "result \<noteq> []" by auto
  from downsampleBuffer_loop [OF assms(1,2) ne] assms(4) obtain q where
    res: "result = downsample_loop buffer ratio 0 (Fin 0) (new_Float32Array (nat (Math_round q)))"
    by auto
  have "Fin 0 = boundary ratio 0" by (simp add: boundary_def)
  then show ?thesis
    using assms(3) nth_downsample_loop [of "Fin 0" ratio 0 i
        "new_Float32Array (nat (Math_round q))" buffer]
    by (simp add: res)
qed

subsection \<open>Examples\<close>

lemma downsampleBuffer_half_rate:
  "downsampleBuffer [Fin 1, Fin 3, Fin 5, Fin 7, Fin 9] 24000 48000 = Inr [Fin 2, Fin 6, Fin 9]"
  by code_simp

lemma downsampleBuffer_third_rate:
  "downsampleBuffer [Fin (13421773 / 134217728), Fin (13421773 / 67108864), Fin (5033165 / 16777216)]
     16000 48000 = Inr [Fin (13421773 / 67108864)]"
  by code_simp

lemma downsampleBuffer_length_rounded:
  "length (projr (downsampleBuffer (replicate 240 (Fin 0)) 44100 48000)) = 220"
proof -
  have r: "fl64 (48000 / 44100) = Fin (4901877145437275 / 4503599627370496)"
    by (rule fl64_eval [where e = 0 and e' = 0]) (simp_all add: round_ties_even_def)
  have q: "fl64 (240 / (4901877145437275 / 4503599627370496)) = Fin (7758154045587455 / 35184372088832)"
    by (rule fl64_eval [where e = 7 and e' = 7]) (simp_all add: round_ties_even_def)
  have m: "Math_round (7758154045587455 / 35184372088832) = 220"
    by (simp add: Math_round_def)
  from r q m show ?thesis
    by (simp add: downsampleBuffer_def new_Float32Array_def)
qed

lemma half_boundaries: "fl64 (48000 / 24000) = Fin 2 \<and> boundary 2 2 = Fin 4 \<and> boundary 2 3 = Fin 6"
proof -
  have "fl64 2 = Fin 2"
    by (rule fl64_eval [where e = 1 and e' = 1]) (simp_all add: round_ties_even_def)
  moreover have "fl64 4 = Fin 4"
    by (rule fl64_eval [where e = 2 and e' = 2]) (simp_all add: round_ties_even_def)
  moreover have "fl64 6 = Fin 6"
    by (rule fl64_eval [where e = 2 and e' = 2]) (simp_all add: round_ties_even_def)
  ultimately show ?thesis
    by (simp add: boundary_def Math_round_num_def Math_round_def)
qed

lemma length_long_buffer: "length long_buffer = 33943552"
  by (simp add: long_buffer_def)

lemma odd_rate_bounds: "0 < odd_rate \<and> odd_rate < 48000"
  by (simp add: odd_rate_def)

lemma odd_ratio: "fl64 (48000 / odd_rate) = Fin odd_ratio"
  unfolding odd_rate_def odd_ratio_def
  by (rule fl64_eval [where e = 0 and e' = 0]) (simp_all add: round_ties_even_def)

lemma odd_length: "fl64 (real (length long_buffer) / odd_ratio) = Fin (67887103 / 2)"
  unfolding odd_ratio_def length_long_buffer
  by (rule fl64_eval [where e = 25 and e' = 25]) (simp_all add: round_ties_even_def)

lemma odd_boundary: "boundary odd_ratio 33943551 = Fin 33943552"
proof -
  have "fl64 (33943551 * odd_ratio) = Fin (67887103 / 2)"
    unfolding odd_ratio_def
    by (rule fl64_eval [where e = 25 and e' = 25]) (simp_all add: round_ties_even_def)
  then show ?thesis
    by (simp add: boundary_def Math_round_num_def Math_round_def)
qed

lemma long_result:
  "downsampleBuffer long_buffer odd_rate 48000 =
     Inr (downsample_loop long_buffer odd_ratio 0 (Fin 0) (new_Float32Array 33943552))"
proof -
  have "odd_rate \<noteq> 48000" "\<not> 48000 < odd_rate" "odd_rate \<noteq> 0" "odd_ratio \<noteq> 0"
    by (simp_all add: odd_rate_def odd_ratio_def)
  moreover have "Math_round (67887103 / 2) = 33943552"
    by (simp add: Math_round_def)
  ultimately show ?thesis
    by (simp add: downsampleBuffer_def odd_ratio odd_length Let_def)
qed

lemma long_result_last:
  "projr (downsampleBuffer long_buffer odd_rate 48000) ! 33943551 = NaN"
proof -
  let ?result = "projr (downsampleBuffer long_buffer odd_rate 48000)"
  have res: "downsampleBuffer long_buffer odd_rate 48000 = Inr ?result"
    by (simp add: long_result)
  have len: "length ?result = 33943552"
    by (simp add: long_result new_Float32Array_def)
  have "?result ! 33943551 = block_average long_buffer (boundary odd_ratio 33943551)
      (boundary odd_ratio (Suc 33943551))"
    using odd_rate_bounds
    by (intro downsampleBuffer_blocks [OF res _ _ odd_ratio]) (simp_all add: len)
  moreover have "accum_from long_buffer (boundary odd_ratio (Suc 33943551))
      (boundary odd_ratio 33943551) = (Fin 0, 0)"
    by (rule accum_from_empty) (simp_all add: odd_boundary length_long_buffer)
  ultimately show ?thesis by (simp add: block_average_empty)
qed

lemma length_merge_channels:
  "merge_channels bufs len cs = Inr bs \<Longrightarrow> length bs = length cs"
proof (induction cs arbitrary: bs)
  case Nil
  then show ?case by simp
next
  case (Cons c cs)
  then show ?case
    by (auto simp: bind_err_def split: option.splits sum.splits)
qed

lemma downsampleBuffer_too_fast:
  "srate < rate \<Longrightarrow> downsampleBuffer buffer rate srate =
     Inl (Error ''downsampling rate show be smaller than original sample rate'')"
  by (simp add: downsampleBuffer_def)

lemma exportWAV_too_fast:
  assumes "sampleRate w < rate"
  shows "\<exists>e. exportWAV type (Some rate) w = Inl e"
proof (cases "merge_channels (recBuffers w) (recLength w) [0..<numChannels w]")
  case (Inl e)
  then show ?thesis by (simp add: exportWAV_def)
next
  case (Inr buffers)
  then show ?thesis
    using assms
    by (auto simp: exportWAV_def downsampleBuffer_too_fast split: option.splits)
qed

lemma exportWAV_too_fast_merged:
  assumes "sampleRate w < rate"
    and "merge_channels (recBuffers w) (recLength w) [0..<numChannels w] = Inr buffers"
  shows "exportWAV type (Some rate) w =
     Inl (Error ''downsampling rate show be smaller than original sample rate'')"
proof -
  have "length buffers = numChannels w"
    using length_merge_channels [OF assms(2)] by simp
  then show ?thesis
    using assms
    by (auto simp: exportWAV_def downsampleBuffer_too_fast nth_opt_def split: option.splits)
qed

lemma merge_channels_example: "merge_channels (recBuffers w0) (recLength w0) [0..<numChannels w0] = Inr [[Fin 1, Fin (1 / 2)]]"
  by code_simp

section \<open>The recorder: lemmas\<close>










lemmas method_defs = start_def setup_recorder_def stop_def reset_def abort_def kill_def
  Recorder_getBuffer_def Recorder_exportWAV_def onWorkerMessage_def onAudioProcess_def
  isQuiet_def postMessage_def dispatchEvent_def Let_def

lemma reachable_invariant:
  "reachable opts r \<Longrightarrow> mono (options r) \<and> inits_mono r"
proof (induction rule: reachable.induct)
  case reach_new
  show ?case by (simp add: new_Recorder_def or_bool_def inits_mono_def split: option.split)
next
  case (reach_start r ctx)
  then show ?case by (auto simp: inits_mono_def method_defs)
next
  case (reach_stop r)
  then show ?case by (auto simp: inits_mono_def method_defs)
next
  case (reach_reset r)
  then show ?case by (auto simp: inits_mono_def method_defs)
next
  case (reach_abort r)
  then show ?case by (auto simp: inits_mono_def method_defs)
next
  case (reach_getBuffer r)
  then show ?case by (auto simp: inits_mono_def method_defs)
next
  case (reach_onWorkerMessage r m)
  then show ?case by (auto simp: inits_mono_def method_defs split: reply.split)
next
  case (reach_onAudioProcess r ctx ev)
  then show ?case by (auto simp: inits_mono_def method_defs)
qed

section \<open>Claims about interleave\<close>

text \<open>
  C9: for two channel arrays of the same length \<open>n\<close>, \<open>interleave\<close> returns an array of
  length \<open>2 * n\<close> whose element at every even index \<open>2 * i\<close> is \<open>inputL[i]\<close> and whose
  element at every odd index \<open>2 * i + 1\<close> is \<open>inputR[i]\<close>.
\<close>

theorem interleave_equal_length:
  assumes "length inputL = n" and "length inputR = n"
  shows "length (interleave inputL inputR) = 2 * n \<and>
         (\<forall>i<n. interleave inputL inputR ! (2 * i) = inputL ! i \<and>
                interleave inputL inputR ! (2 * i + 1) = inputR ! i)"
  using assms
  by (simp add: length_interleave nth_interleave interleaved_at_def f32_load_def ToNumber_def)

theorem interleave_equal_length_witness:
  "length [Fin 1, Fin 2] = 2 \<and> length [Fin 3, Fin 4] = 2 \<and> (1::nat) < 2 \<and>
   length (interleave [Fin 1, Fin 2] [Fin 3, Fin 4]) = 2 * 2 \<and>
   interleave [Fin 1, Fin 2] [Fin 3, Fin 4] ! (2 * 1) = [Fin 1, Fin 2] ! 1 \<and>
   interleave [Fin 1, Fin 2] [Fin 3, Fin 4] ! (2 * 1 + 1) = [Fin 3, Fin 4] ! 1"
proof -
  have l: "length [Fin 1, Fin 2] = 2" and r: "length [Fin 3, Fin 4] = 2" and i: "(1::nat) < 2"
    by simp_all
  note t = interleave_equal_length [OF l r]
  from t have len: "length (interleave [Fin 1, Fin 2] [Fin 3, Fin 4]) = 2 * 2"
    by (rule conjunct1)
  from t [THEN conjunct2, rule_format, OF i] l r i len show ?thesis
    by (intro conjI) (erule conjunct1 conjunct2 | assumption)+
qed

text \<open>
  C4, as the program has it: \<open>interleave\<close> has no length check and throws nothing. For
  channel arrays of any lengths, equal or not, it returns an array of length
  \<open>|inputL| + |inputR|\<close>; the element at an even index \<open>j\<close> is \<open>inputL[j div 2]\<close> and the
  element at an odd index \<open>j\<close> is \<open>inputR[j div 2]\<close>, and NaN where that index is beyond
  the end of the channel (the read gives \<open>undefined\<close>).
\<close>

theorem interleave_any_length:
  "length (interleave inputL inputR) = length inputL + length inputR \<and>
   (\<forall>j < length inputL + length inputR.
      interleave inputL inputR ! j =
        (if even j then (if j div 2 < length inputL then inputL ! (j div 2) else NaN)
         else (if j div 2 < length inputR then inputR ! (j div 2) else NaN)))"
  by (simp add: length_interleave nth_interleave interleaved_at_def f32_load_def ToNumber_def)

theorem interleave_any_length_witness:
  "length (interleave [Fin 1] [Fin 3, Fin 4]) = length [Fin 1] + length [Fin 3, Fin 4] \<and>
   (2::nat) < length [Fin 1] + length [Fin 3, Fin 4] \<and>
   interleave [Fin 1] [Fin 3, Fin 4] ! 2 = NaN"
  using interleave_any_length [of "[Fin 1]" "[Fin 3, Fin 4]"]
  by simp

text \<open>
  The claim as the specification states it (unequal lengths make \<open>interleave\<close> fail with
  a LengthMismatch error) does not hold: on channels of lengths 1 and 2 the function
  returns an array.
\<close>

theorem interleave_length_mismatch_returns:
  "length [Fin 1] \<noteq> length [Fin 3, Fin 4] \<and>
   interleave [Fin 1] [Fin 3, Fin 4] = [Fin 1, Fin 3, NaN]"
  by (simp add: interleave_def interleave_loop.simps f32_store_def f32_load_def ToNumber_def
      new_Float32Array_def Let_def)

section \<open>Claims about the encoder\<close>

text \<open>
  C1: for every sample array, rate and channel count, \<open>encodeWAV\<close> returns a view of
  \<open>44 + 2 * |samples|\<close> bytes whose first 44 bytes are: "RIFF"; the little-endian
  uint32 \<open>36 + 2 * |samples|\<close>; "WAVE"; "fmt "; uint32 16; uint16 1; uint16
  \<open>numChannels\<close>; uint32 \<open>rate\<close>; uint32 \<open>rate * numChannels * 2\<close>; uint16
  \<open>numChannels * 2\<close>; uint16 16; "data"; uint32 \<open>2 * |samples|\<close>; the 16-bit samples
  follow. Each number is written as the setter writes it, reduced modulo \<open>2 ^ 32\<close> or
  \<open>2 ^ 16\<close>. Reading the header back gives the fields written, and the rate, the channel
  count and the data length themselves when they fit their fields.
\<close>

theorem encodeWAV_header:
  "\<exists>view. encodeWAV samples rate channels = Inr view
     \<and> length view = 44 + 2 * length samples
     \<and> take 44 view =
         [82, 73, 70, 70] @ le32 (word_of_nat (36 + 2 * length samples))
         @ [87, 65, 86, 69] @ [102, 109, 116, 32]
         @ le32 16 @ le16 1 @ le16 (word_of_nat channels)
         @ le32 (word_of_int (ToIntegral (Fin rate)))
         @ le32 (word_of_int (ToIntegral (Fin (rate * real channels * 2))))
         @ le16 (word_of_nat (channels * 2)) @ le16 16
         @ [100, 97, 116, 97] @ le32 (word_of_nat (2 * length samples))
     \<and> drop 44 view = pcm_bytes samples
     \<and> getString view 0 4 = ''RIFF'' \<and> getString view 8 4 = ''WAVE''
     \<and> getString view 12 4 = ''fmt '' \<and> getString view 36 4 = ''data''
     \<and> getUint32 view 4 = (36 + 2 * length samples) mod 2 ^ 32
     \<and> getUint32 view 16 = 16 \<and> getUint16 view 20 = 1
     \<and> getUint16 view 22 = channels mod 2 ^ 16
     \<and> int (getUint32 view 24) = ToIntegral (Fin rate) mod 2 ^ 32
     \<and> int (getUint32 view 28) = ToIntegral (Fin (rate * real channels * 2)) mod 2 ^ 32
     \<and> getUint16 view 32 = (channels * 2) mod 2 ^ 16 \<and> getUint16 view 34 = 16
     \<and> getUint32 view 40 = (2 * length samples) mod 2 ^ 32
     \<and> (\<forall>r. rate = real r \<and> r < 2 ^ 32 \<longrightarrow> getUint32 view 24 = r)
     \<and> (channels < 2 ^ 16 \<longrightarrow> getUint16 view 22 = channels)
     \<and> (2 * length samples < 2 ^ 32 \<longrightarrow> getUint32 view 40 = 2 * length samples)"
proof -
  define view where "view = wav_header (length samples) rate channels @ pcm_bytes samples"
  let ?n = "length samples"
  have enc: "encodeWAV samples rate channels = Inr view"
    by (simp add: view_def encodeWAV_bytes)
  have len: "length view = 44 + 2 * ?n"
    by (simp add: view_def pcm_bytes_def length_concat o_def sum_list_triv mult.commute)
  have hdr: "take 44 view = wav_header ?n rate channels" and pcm: "drop 44 view = pcm_bytes samples"
    by (simp_all add: view_def)
  have split: "view = take k (wav_header ?n rate channels) @ take m (drop k (wav_header ?n rate channels))
      @ (drop (k + m) (wav_header ?n rate channels) @ pcm_bytes samples)" for k m
  proof -
    have "take m (drop k (wav_header ?n rate channels)) @ drop (k + m) (wav_header ?n rate channels)
        = drop k (wav_header ?n rate channels)"
      using append_take_drop_id [of m "drop k (wav_header ?n rate channels)"]
      by (simp only: drop_drop add.commute)
    then have "wav_header ?n rate channels = take k (wav_header ?n rate channels)
        @ take m (drop k (wav_header ?n rate channels)) @ drop (k + m) (wav_header ?n rate channels)"
      by simp
    then have "wav_header ?n rate channels @ pcm_bytes samples = (take k (wav_header ?n rate channels)
        @ take m (drop k (wav_header ?n rate channels)) @ drop (k + m) (wav_header ?n rate channels))
        @ pcm_bytes samples"
      by (rule arg_cong)
    then show ?thesis
      unfolding view_def by (simp only: append_assoc)
  qed
  have u32: "getUint32 view k = unat w"
    if "take 4 (drop k (wav_header ?n rate channels)) = le32 w" and "k + 4 \<le> 44" for k w
    using getUint32_le32 [of "take k (wav_header ?n rate channels)" w
        "drop (k + 4) (wav_header ?n rate channels) @ pcm_bytes samples"] split [of k 4] that
    by simp
  have u16: "getUint16 view k = unat w"
    if "take 2 (drop k (wav_header ?n rate channels)) = le16 w" and "k + 2 \<le> 44" for k w
    using getUint16_le16 [of "take k (wav_header ?n rate channels)" w
        "drop (k + 2) (wav_header ?n rate channels) @ pcm_bytes samples"] split [of k 2] that
    by simp
  have str: "getString view k 4 = map (\<lambda>b. char_of (unat b)) (take 4 (drop k (wav_header ?n rate channels)))"
    if "k + 4 \<le> 44" for k
    using that by (simp add: getString_def view_def)
  have s0: "getString view 0 4 = ''RIFF''"
    using str [of 0] ascii_RIFF by (simp add: wav_header_fields)
  have s8: "getString view 8 4 = ''WAVE''"
    using str [of 8] ascii_WAVE by (simp add: wav_header_fields le32_def)
  have s12: "getString view 12 4 = ''fmt ''"
    using str [of 12] ascii_fmt by (simp add: wav_header_fields le32_def)
  have s36: "getString view 36 4 = ''data''"
    using str [of 36] ascii_data by (simp add: wav_header_fields le32_def le16_def)
  have f4: "getUint32 view 4 = (36 + 2 * ?n) mod 2 ^ 32"
  proof -
    have "getUint32 view 4 = unat (word_of_nat (36 + 2 * ?n) :: 32 word)"
      by (rule u32) (simp_all add: wav_header_fields)
    then show ?thesis by (simp only: unat_word_of_nat32)
  qed
  have f16: "getUint32 view 16 = 16"
  proof -
    have "getUint32 view 16 = unat (16 :: 32 word)"
      by (rule u32) (simp_all add: wav_header_fields)
    then show ?thesis by simp
  qed
  have f20: "getUint16 view 20 = 1"
  proof -
    have "getUint16 view 20 = unat (1 :: 16 word)"
      by (rule u16) (simp_all add: wav_header_fields)
    then show ?thesis by simp
  qed
  have f22: "getUint16 view 22 = channels mod 2 ^ 16"
  proof -
    have "getUint16 view 22 = unat (word_of_nat channels :: 16 word)"
      by (rule u16) (simp_all add: wav_header_fields)
    then show ?thesis by (simp only: unat_word_of_nat16)
  qed
  have f24: "int (getUint32 view 24) = ToIntegral (Fin rate) mod 2 ^ 32"
  proof -
    have "getUint32 view 24 = unat (word_of_int (ToIntegral (Fin rate)) :: 32 word)"
      by (rule u32) (simp_all add: wav_header_fields)
    then show ?thesis by (simp only: unat_word_of_int32)
  qed
  have f28: "int (getUint32 view 28) = ToIntegral (Fin (rate * real channels * 2)) mod 2 ^ 32"
  proof -
    have "getUint32 view 28 = unat (word_of_int (ToIntegral (Fin (rate * real channels * 2))) :: 32 word)"
      by (rule u32) (simp_all add: wav_header_fields)
    then show ?thesis by (simp only: unat_word_of_int32)
  qed
  have f32: "getUint16 view 32 = (channels * 2) mod 2 ^ 16"
  proof -
    have "getUint16 view 32 = unat (word_of_nat (channels * 2) :: 16 word)"
      by (rule u16) (simp_all add: wav_header_fields)
    then show ?thesis by (simp only: unat_word_of_nat16)
  qed
  have f34: "getUint16 view 34 = 16"
  proof -
    have "getUint16 view 34 = unat (16 :: 16 word)"
      by (rule u16) (simp_all add: wav_header_fields)
    then show ?thesis by simp
  qed
  have f40: "getUint32 view 40 = (2 * ?n) mod 2 ^ 32"
  proof -
    have "getUint32 view 40 = unat (word_of_nat (2 * ?n) :: 32 word)"
      by (rule u32) (simp_all add: wav_header_fields)
    then show ?thesis by (simp only: unat_word_of_nat32)
  qed
  have r24: "getUint32 view 24 = r" if "rate = real r \<and> r < 2 ^ 32" for r
  proof -
    have "int (getUint32 view 24) = int r mod 2 ^ 32"
      using f24 that by (simp only: ToIntegral_real)
    also have "\<dots> = int r" using that by simp
    finally show ?thesis by simp
  qed
  have r22: "channels < 2 ^ 16 \<longrightarrow> getUint16 view 22 = channels"
    using f22 by simp
  have r40: "2 * ?n < 2 ^ 32 \<longrightarrow> getUint32 view 40 = 2 * ?n"
    using f40 by simp
  have hdr': "take 44 view =
         [82, 73, 70, 70] @ le32 (word_of_nat (36 + 2 * length samples))
         @ [87, 65, 86, 69] @ [102, 109, 116, 32]
         @ le32 16 @ le16 1 @ le16 (word_of_nat channels)
         @ le32 (word_of_int (ToIntegral (Fin rate)))
         @ le32 (word_of_int (ToIntegral (Fin (rate * real channels * 2))))
         @ le16 (word_of_nat (channels * 2)) @ le16 16
         @ [100, 97, 116, 97] @ le32 (word_of_nat (2 * length samples))"
    by (simp only: hdr wav_header_fields)
  from enc len hdr' pcm s0 s8 s12 s36 f4 f16 f20 f22 f24 f28 f32 f34 f40 r24 r22 r40
  show ?thesis by blast
qed

theorem encodeWAV_header_witness:
  "encodeWAV [Fin (1 / 2), Fin (- 1 / 2), Fin 2] 44100 1 =
     Inr [82, 73, 70, 70, 42, 0, 0, 0, 87, 65, 86, 69, 102, 109, 116, 32, 16, 0, 0, 0, 1, 0, 1, 0,
          68, 172, 0, 0, 136, 88, 1, 0, 2, 0, 16, 0, 100, 97, 116, 97, 6, 0, 0, 0,
          255, 63, 0, 192, 255, 127]
   \<and> (44100 :: real) = real (44100 :: nat) \<and> (44100 :: nat) < 2 ^ 32
   \<and> getUint32 [82, 73, 70, 70, 42, 0, 0, 0, 87, 65, 86, 69, 102, 109, 116, 32, 16, 0, 0, 0, 1, 0, 1, 0,
          68, 172, 0, 0, 136, 88, 1, 0, 2, 0, 16, 0, 100, 97, 116, 97, 6, 0, 0, 0,
          255, 63, 0, 192, 255, 127] 24 = 44100
   \<and> (1 :: nat) < 2 ^ 16
   \<and> getUint16 [82, 73, 70, 70, 42, 0, 0, 0, 87, 65, 86, 69, 102, 109, 116, 32, 16, 0, 0, 0, 1, 0, 1, 0,
          68, 172, 0, 0, 136, 88, 1, 0, 2, 0, 16, 0, 100, 97, 116, 97, 6, 0, 0, 0,
          255, 63, 0, 192, 255, 127] 22 = 1
   \<and> 2 * length [Fin (1 / 2), Fin (- 1 / 2), Fin 2] < (2 :: nat) ^ 32
   \<and> getUint32 [82, 73, 70, 70, 42, 0, 0, 0, 87, 65, 86, 69, 102, 109, 116, 32, 16, 0, 0, 0, 1, 0, 1, 0,
          68, 172, 0, 0, 136, 88, 1, 0, 2, 0, 16, 0, 100, 97, 116, 97, 6, 0, 0, 0,
          255, 63, 0, 192, 255, 127] 40 = 6"
  using encodeWAV_header [of "[Fin (1 / 2), Fin (- 1 / 2), Fin 2]" 44100 1] encodeWAV_example
  by (simp add: getUint32_def getUint16_def)

text \<open>
  C2: for every sample position of every encoded buffer, the 16-bit little-endian value
  at that position is the input sample clamped to \<open>[-1, 1]\<close> and then scaled by 32768
  when the clamped value is negative and by 32767 otherwise, truncated towards zero; no
  wrap-around occurs. An infinite sample is clamped like any other; NaN is written as 0.
\<close>

theorem floatTo16BitPCM_scaling:
  assumes "encodeWAV samples rate channels = Inr view" and "i < length samples"
  shows "getInt16 view (44 + 2 * i) =
     (case samples ! i of
        Fin x \<Rightarrow> (let s = max (- 1) (min 1 x) in if s < 0 then \<lceil>s * 32768\<rceil> else \<lfloor>s * 32767\<rfloor>)
      | PInf \<Rightarrow> 32767 | NInf \<Rightarrow> - 32768 | NaN \<Rightarrow> 0)"
proof -
  let ?pre = "wav_header (length samples) rate channels @ pcm_bytes (take i samples)"
  have view: "view = ?pre @ le16 (word_of_int (pcm_value (samples ! i)))
      @ pcm_bytes (drop (Suc i) samples)"
    using assms by (simp add: encodeWAV_bytes pcm_bytes_split [OF assms(2)])
  have "length ?pre = 44 + 2 * i"
    using assms(2) by simp
  then have "getInt16 view (44 + 2 * i) = pcm_value (samples ! i)"
    using getInt16_le16 [of "pcm_value (samples ! i)" ?pre "pcm_bytes (drop (Suc i) samples)"]
      pcm_value_range [of "samples ! i"] view by simp
  then show ?thesis by (simp add: pcm_value_def)
qed

theorem floatTo16BitPCM_scaling_witness:
  "encodeWAV [Fin (1 / 2), Fin (- 1 / 2), Fin 2] 44100 1 =
     Inr [82, 73, 70, 70, 42, 0, 0, 0, 87, 65, 86, 69, 102, 109, 116, 32, 16, 0, 0, 0, 1, 0, 1, 0,
          68, 172, 0, 0, 136, 88, 1, 0, 2, 0, 16, 0, 100, 97, 116, 97, 6, 0, 0, 0,
          255, 63, 0, 192, 255, 127]
   \<and> 1 < length [Fin (1 / 2), Fin (- 1 / 2), Fin 2]
   \<and> getInt16 [82, 73, 70, 70, 42, 0, 0, 0, 87, 65, 86, 69, 102, 109, 116, 32, 16, 0, 0, 0, 1, 0, 1, 0,
          68, 172, 0, 0, 136, 88, 1, 0, 2, 0, 16, 0, 100, 97, 116, 97, 6, 0, 0, 0,
          255, 63, 0, 192, 255, 127] (44 + 2 * 1) = - 16384"
  using floatTo16BitPCM_scaling [OF encodeWAV_example, of 1] encodeWAV_example
  by simp

section \<open>Claims about the resampler\<close>

text \<open>
  C8: \<open>downsampleBuffer\<close> returns its input unchanged when the target rate equals the
  worker's sample rate, for every input and every rate.
\<close>

theorem downsampleBuffer_identity:
  "downsampleBuffer buffer rate rate = Inr buffer"
  by (simp add: downsampleBuffer_def)

theorem downsampleBuffer_identity_witness:
  "downsampleBuffer [Fin 1, Fin (1 / 2), NaN] 44100 44100 = Inr [Fin 1, Fin (1 / 2), NaN]"
  by (rule downsampleBuffer_identity)

text \<open>
  C7: when the target rate is higher than the worker's sample rate, \<open>downsampleBuffer\<close>
  throws its error (the program's word for the specification's InvalidRate) for every
  input. The \<open>exportWAV\<close> message that carries such a rate leaves the worker's globals,
  and so the recorded buffers, as they were and posts nothing; the exception that ends the
  handler is this error whenever merging the recorded chunks succeeded.
\<close>

theorem downsampleBuffer_upsampling_fails:
  "(srate < rate \<longrightarrow>
      downsampleBuffer buffer rate srate =
        Inl (Error ''downsampling rate show be smaller than original sample rate''))
   \<and> (sampleRate w < rate \<longrightarrow>
        fst (onmessage w (ExportWAV type (Some rate))) = w \<and>
        (\<exists>e. snd (onmessage w (ExportWAV type (Some rate))) = Inl e) \<and>
        (\<forall>buffers. merge_channels (recBuffers w) (recLength w) [0..<numChannels w] = Inr buffers
           \<longrightarrow> snd (onmessage w (ExportWAV type (Some rate))) =
                 Inl (Error ''downsampling rate show be smaller than original sample rate'')))"
  using downsampleBuffer_too_fast [of srate rate buffer] exportWAV_too_fast [of w rate type]
    exportWAV_too_fast_merged [of w rate _ type]
  by simp

theorem downsampleBuffer_upsampling_fails_witness:
  "(44100 :: real) < 48000 \<and> sampleRate w0 < 48000
   \<and> downsampleBuffer [Fin 1, Fin (1 / 2)] 48000 44100 =
        Inl (Error ''downsampling rate show be smaller than original sample rate'')
   \<and> merge_channels (recBuffers w0) (recLength w0) [0..<numChannels w0] = Inr [[Fin 1, Fin (1 / 2)]]
   \<and> onmessage w0 (ExportWAV ''audio/wav'' (Some 48000)) =
        (w0, Inl (Error ''downsampling rate show be smaller than original sample rate''))"
proof -
  have a: "(44100 :: real) < 48000" and b: "sampleRate w0 < 48000"
    by (simp_all add: w0_def)
  note t = downsampleBuffer_upsampling_fails [of 44100 48000 "[Fin 1, Fin (1 / 2)]" w0 "''audio/wav''"]
  from t a have c: "downsampleBuffer [Fin 1, Fin (1 / 2)] 48000 44100 =
        Inl (Error ''downsampling rate show be smaller than original sample rate'')"
    by blast
  from t b merge_channels_example have "fst (onmessage w0 (ExportWAV ''audio/wav'' (Some 48000))) = w0"
    and "snd (onmessage w0 (ExportWAV ''audio/wav'' (Some 48000))) =
        Inl (Error ''downsampling rate show be smaller than original sample rate'')"
    by blast+
  then have "onmessage w0 (ExportWAV ''audio/wav'' (Some 48000)) =
        (w0, Inl (Error ''downsampling rate show be smaller than original sample rate''))"
    by (metis prod.collapse)
  with a b c merge_channels_example show ?thesis by blast
qed

text \<open>
  C6, as the program has it: every output sample of \<open>downsampleBuffer\<close> is
  \<open>accum / count\<close>, rounded to a 32-bit float, over its input range
  \<open>[boundary i, min (boundary (i + 1)) length)\<close>, with no guard on the count. On an empty
  range the count is 0, the division is \<open>0 / 0\<close> and the output sample is NaN; on every
  other range the count is positive. The boundaries are those of the binary64 ratio
  \<open>sampleRate / rate\<close>, which is finite and positive whenever there is an output sample.
\<close>

theorem downsample_empty_range:
  "downsampleBuffer buffer rate srate = Inr result \<and> rate \<noteq> srate \<and> i < length result \<longrightarrow>
     (\<exists>ratio. fl64 (srate / rate) = Fin ratio \<and> 0 < ratio \<and>
        result ! i = block_average buffer (boundary ratio i) (boundary ratio (i + 1)) \<and>
        (\<not> (jlt (boundary ratio i) (boundary ratio (i + 1)) \<and>
             jlt (boundary ratio i) (Fin (real (length buffer))))
           \<longrightarrow> snd (accum_from buffer (boundary ratio (i + 1)) (boundary ratio i)) = 0 \<and>
               result ! i = NaN) \<and>
        (jlt (boundary ratio i) (boundary ratio (i + 1)) \<and>
         jlt (boundary ratio i) (Fin (real (length buffer)))
           \<longrightarrow> 0 < snd (accum_from buffer (boundary ratio (i + 1)) (boundary ratio i))))"
proof
  assume h: "downsampleBuffer buffer rate srate = Inr result \<and> rate \<noteq> srate \<and> i < length result"
  then have ne: "result \<noteq> []" by auto
  from h downsampleBuffer_ratio_pos [of buffer rate srate result] ne obtain ratio where
    r: "fl64 (srate / rate) = Fin ratio" and pos: "0 < ratio"
    by blast
  let ?cur = "boundary ratio i" and ?next = "boundary ratio (i + 1)"
  have blk: "result ! i = block_average buffer ?cur ?next"
    using h r downsampleBuffer_blocks [of buffer rate srate result i ratio] by simp
  have int: "\<And>a. ?cur = Fin a \<Longrightarrow> of_int \<lfloor>a\<rfloor> = a"
    by (rule boundary_integral)
  have fin: "?cur \<noteq> NInf" using pos by (rule boundary_not_NInf)
  have e: "snd (accum_from buffer ?next ?cur) = 0 \<and> result ! i = NaN"
    if "\<not> (jlt ?cur ?next \<and> jlt ?cur (Fin (real (length buffer))))"
  proof -
    from accum_from_empty [OF that int fin]
    have "accum_from buffer ?next ?cur = (Fin 0, 0)" by simp
    then show ?thesis using blk by (simp add: block_average_empty)
  qed
  have n: "0 < snd (accum_from buffer ?next ?cur)"
    if "jlt ?cur ?next \<and> jlt ?cur (Fin (real (length buffer)))"
    using accum_from_nonempty [OF that int fin] by simp
  from r pos blk e n
  show "\<exists>ratio. fl64 (srate / rate) = Fin ratio \<and> 0 < ratio \<and>
        result ! i = block_average buffer (boundary ratio i) (boundary ratio (i + 1)) \<and>
        (\<not> (jlt (boundary ratio i) (boundary ratio (i + 1)) \<and>
             jlt (boundary ratio i) (Fin (real (length buffer))))
           \<longrightarrow> snd (accum_from buffer (boundary ratio (i + 1)) (boundary ratio i)) = 0 \<and>
               result ! i = NaN) \<and>
        (jlt (boundary ratio i) (boundary ratio (i + 1)) \<and>
         jlt (boundary ratio i) (Fin (real (length buffer)))
           \<longrightarrow> 0 < snd (accum_from buffer (boundary ratio (i + 1)) (boundary ratio i)))"
    by blast
qed

theorem downsample_empty_range_witness:
  "downsampleBuffer long_buffer odd_rate 48000 =
       Inr (projr (downsampleBuffer long_buffer odd_rate 48000))
   \<and> odd_rate \<noteq> 48000
   \<and> 33943551 < length (projr (downsampleBuffer long_buffer odd_rate 48000))
   \<and> fl64 (48000 / odd_rate) = Fin odd_ratio
   \<and> \<not> (jlt (boundary odd_ratio 33943551) (boundary odd_ratio (33943551 + 1)) \<and>
          jlt (boundary odd_ratio 33943551) (Fin (real (length long_buffer))))
   \<and> projr (downsampleBuffer long_buffer odd_rate 48000) ! 33943551 = NaN
   \<and> downsampleBuffer [Fin 1, Fin 3, Fin 5, Fin 7, Fin 9] 24000 48000 = Inr [Fin 2, Fin 6, Fin 9]
   \<and> (24000 :: real) \<noteq> 48000
   \<and> 2 < length [Fin 2, Fin 6, Fin 9 :: jsnum]
   \<and> fl64 (48000 / 24000) = Fin 2
   \<and> jlt (boundary 2 2) (boundary 2 (2 + 1))
   \<and> jlt (boundary 2 2) (Fin (real (length [Fin 1, Fin 3, Fin 5, Fin 7, Fin 9 :: jsnum])))
   \<and> 0 < snd (accum_from [Fin 1, Fin 3, Fin 5, Fin 7, Fin 9] (boundary 2 (2 + 1)) (boundary 2 2))"
proof -
  let ?result = "projr (downsampleBuffer long_buffer odd_rate 48000)"
  have res: "downsampleBuffer long_buffer odd_rate 48000 = Inr ?result"
    by (simp add: long_result)
  have ne: "odd_rate \<noteq> 48000" using odd_rate_bounds by simp
  have len: "33943551 < length ?result"
    by (simp add: long_result new_Float32Array_def)
  have empty: "\<not> (jlt (boundary odd_ratio 33943551) (boundary odd_ratio (33943551 + 1)) \<and>
          jlt (boundary odd_ratio 33943551) (Fin (real (length long_buffer))))"
    by (simp add: odd_boundary length_long_buffer)
  from downsample_empty_range [of long_buffer odd_rate 48000 ?result 33943551] res ne len
  obtain ratio where "fl64 (48000 / odd_rate) = Fin ratio"
    and "\<not> (jlt (boundary ratio 33943551) (boundary ratio (33943551 + 1)) \<and>
             jlt (boundary ratio 33943551) (Fin (real (length long_buffer))))
           \<longrightarrow> ?result ! 33943551 = NaN"
    by blast
  with odd_ratio empty have nan: "?result ! 33943551 = NaN" by simp
  let ?buffer = "[Fin 1, Fin 3, Fin 5, Fin 7, Fin 9 :: jsnum]"
  have half: "fl64 (48000 / 24000) = Fin 2" "boundary 2 2 = Fin 4" "boundary 2 3 = Fin 6"
    using half_boundaries by simp_all
  have full: "jlt (boundary 2 2) (boundary 2 (2 + 1))"
    "jlt (boundary 2 2) (Fin (real (length ?buffer)))"
    by (simp_all add: half)
  from downsample_empty_range [of ?buffer 24000 48000 "[Fin 2, Fin 6, Fin 9]" 2]
    downsampleBuffer_half_rate
  obtain ratio' where "fl64 (48000 / 24000) = Fin ratio'"
    and "jlt (boundary ratio' 2) (boundary ratio' (2 + 1)) \<and>
         jlt (boundary ratio' 2) (Fin (real (length ?buffer)))
           \<longrightarrow> 0 < snd (accum_from ?buffer (boundary ratio' (2 + 1)) (boundary ratio' 2))"
    by auto
  with half(1) full
  have pos: "0 < snd (accum_from ?buffer (boundary 2 (2 + 1)) (boundary 2 2))" by simp
  from res ne len odd_ratio empty nan downsampleBuffer_half_rate half(1) full pos
  show ?thesis by simp
qed

text \<open>
  The claim as the specification states it (an empty range gives the output 0.0 and no
  division by zero) does not hold, also between a positive target rate and a higher sample
  rate: from 48000 Hz to 47999.99929294376 Hz the binary64 ratio is a little above 1, a
  recording of 33943552 samples gets an output of 33943552 samples, the boundary of the last
  output index is \<open>Math.round 33943551.5 = 33943552\<close>, the length of the input, its range
  is empty, and the output there is NaN.
\<close>

theorem downsample_empty_range_is_NaN:
  "0 < odd_rate \<and> odd_rate < 48000
   \<and> downsampleBuffer long_buffer odd_rate 48000 =
       Inr (projr (downsampleBuffer long_buffer odd_rate 48000))
   \<and> length (projr (downsampleBuffer long_buffer odd_rate 48000)) = 33943552
   \<and> fl64 (48000 / odd_rate) = Fin odd_ratio
   \<and> boundary odd_ratio 33943551 = Fin 33943552
   \<and> length long_buffer = 33943552
   \<and> projr (downsampleBuffer long_buffer odd_rate 48000) ! 33943551 = NaN
   \<and> projr (downsampleBuffer long_buffer odd_rate 48000) ! 33943551 \<noteq> Fin 0"
  using odd_rate_bounds odd_ratio odd_boundary length_long_buffer long_result_last
  by (simp add: long_result new_Float32Array_def)

section \<open>Claims about the recorder\<close>



text \<open>
  C5, as the program has it: \<open>start\<close> checks no state and never fails. From every state
  it leaves the recorder recording and ready and dispatches \<open>start\<close>; when the recorder
  is not ready yet it first runs the set-up (posting \<open>init\<close> to the worker and dispatching
  \<open>ready\<close>).
\<close>

theorem start_never_fails:
  "recording (start ctx r) \<and> ready (start ctx r) \<and>
   dispatched (start ctx r) =
     dispatched r @ (if ready r then [''start''] else [''ready'', ''start'']) \<and>
   posted (start ctx r) =
     posted r @ (if ready r then []
        else [Init \<lparr>cfg_sampleRate = ctx_sampleRate ctx,
                     cfg_numChannels = (if mono (options r) then 1 else audioTracks ctx)\<rparr>])"
  by (simp add: start_def setup_recorder_def postMessage_def dispatchEvent_def Let_def)

theorem start_never_fails_witness:
  "recording (start ctx0 (stop (start ctx0 (new_Recorder opts_default)))) \<and>
   ready (start ctx0 (stop (start ctx0 (new_Recorder opts_default))))"
  using start_never_fails [of ctx0 "stop (start ctx0 (new_Recorder opts_default))"]
  by simp

text \<open>
  The claim as the specification states it (\<open>start\<close> fails with InvalidState outside the
  Ready state) does not hold: \<open>start\<close> on a recorder that was never set up, and \<open>start\<close>
  after \<open>stop\<close> with no \<open>reset\<close> in between, both end in a recording recorder.
\<close>

theorem start_without_ready_state:
  "\<not> ready (new_Recorder opts_default) \<and>
   recording (start ctx0 (new_Recorder opts_default)) \<and>
   \<not> recording (stop (start ctx0 (new_Recorder opts_default))) \<and>
   posted (stop (start ctx0 (new_Recorder opts_default))) =
     [Init \<lparr>cfg_sampleRate = 48000, cfg_numChannels = 1\<rparr>, ExportWAV ''audio/wav'' None] \<and>
   recording (start ctx0 (stop (start ctx0 (new_Recorder opts_default)))) \<and>
   posted (start ctx0 (stop (start ctx0 (new_Recorder opts_default)))) =
     [Init \<lparr>cfg_sampleRate = 48000, cfg_numChannels = 1\<rparr>, ExportWAV ''audio/wav'' None]"
  by (simp add: method_defs new_Recorder_def opts_default_def ctx0_def or_bool_def)

text \<open>
  C10: \<open>options.mono || true\<close> is true whatever \<open>options.mono\<close> is, so the recorder
  built from any options object has \<open>mono = true\<close>, keeps it through every method and
  callback, and every \<open>init\<close> message it posts configures the worker with
  \<open>numChannels = 1\<close>.
\<close>

theorem mono_always_true:
  "or_bool m True \<and>
   mono (options (new_Recorder opts)) \<and>
   (reachable opts r \<longrightarrow>
      mono (options r) \<and>
      (\<forall>config. Init config \<in> set (posted r) \<longrightarrow>
         cfg_numChannels config = 1 \<and> (\<forall>w. numChannels (fst (onmessage w (Init config))) = 1)))"
proof -
  have a: "or_bool m True" for m
    by (simp add: or_bool_def split: option.split)
  have b: "mono (options (new_Recorder opts))"
    by (simp add: new_Recorder_def a)
  have c: "numChannels (fst (onmessage w (Init config))) = cfg_numChannels config" for w config
    by (simp add: init_def initBuffers_def)
  show ?thesis
    using a b c reachable_invariant [of opts r] by (simp add: inits_mono_def)
qed

theorem mono_always_true_witness:
  "reachable opts_stereo (start ctx0 (new_Recorder opts_stereo)) \<and>
   maybe_mono opts_stereo = Some False \<and> audioTracks ctx0 = 2 \<and>
   mono (options (start ctx0 (new_Recorder opts_stereo))) \<and>
   Init \<lparr>cfg_sampleRate = 48000, cfg_numChannels = 1\<rparr>
     \<in> set (posted (start ctx0 (new_Recorder opts_stereo))) \<and>
   posted (start ctx0 (new_Recorder opts_stereo)) = [Init \<lparr>cfg_sampleRate = 48000, cfg_numChannels = 1\<rparr>]"
proof -
  have r: "reachable opts_stereo (start ctx0 (new_Recorder opts_stereo))"
    by (intro reach_start reach_new)
  have p: "posted (start ctx0 (new_Recorder opts_stereo)) = [Init \<lparr>cfg_sampleRate = 48000, cfg_numChannels = 1\<rparr>]"
    by (simp add: method_defs new_Recorder_def opts_stereo_def ctx0_def or_bool_def)
  from mono_always_true [of "Some False" opts_stereo "start ctx0 (new_Recorder opts_stereo)"] r p
  show ?thesis by (simp add: opts_stereo_def ctx0_def)
qed

end
